theory Spec2Isabelle
  imports Main "HOL-Library.FSet"
begin

section \<open>Python values and strings\<close>

text \<open>
  A cell of a row read by \<^verbatim>\<open>pd.read_csv\<close> is a string, an integer, a boolean, a
  float or NaN; \<^verbatim>\<open>row.get(k)\<close> is \<^verbatim>\<open>None\<close> when the column \<^verbatim>\<open>k\<close> is absent.
  The loader never computes with a finite float: it only takes its \<^verbatim>\<open>str\<close>, its
  truth value and its \<^verbatim>\<open>int\<close>. A finite float is therefore carried as these three
  observations (\<open>ftrunc\<close> is \<open>None\<close> where \<^verbatim>\<open>int\<close> raises OverflowError).
  Strings are lists of code points below 256.
\<close>

datatype pyval =
    VNone
  | VNaN
  | VStr string
  | VInt int
  | VBool bool
  | VFloat (frepr: string) (ftrunc: "int option") (fnonzero: bool)

type_synonym row = "string \<rightharpoonup> pyval"

text \<open>\<^verbatim>\<open>row.get(k)\<close> and \<^verbatim>\<open>k in row\<close>.\<close>

definition row_get :: "row \<Rightarrow> string \<Rightarrow> pyval" where
  "row_get r k = (case r k of None \<Rightarrow> VNone | Some v \<Rightarrow> v)"

definition row_has :: "row \<Rightarrow> string \<Rightarrow> bool" where
  "row_has r k = (r k \<noteq> None)"

text \<open>\<^verbatim>\<open>pd.isna\<close>, \<^verbatim>\<open>pd.notna\<close> on a scalar.\<close>

fun isna :: "pyval \<Rightarrow> bool" where
  "isna VNone = True"
| "isna VNaN = True"
| "isna _ = False"

definition notna :: "pyval \<Rightarrow> bool" where
  "notna v = (\<not> isna v)"

text \<open>Decimal rendering of a natural number and of an integer.\<close>

definition digit_char :: "nat \<Rightarrow> char" where
  "digit_char d = char_of (48 + d)"

fun str_nat :: "nat \<Rightarrow> string" where
  "str_nat n = (if n < 10 then [digit_char n] else str_nat (n div 10) @ [digit_char (n mod 10)])"

declare str_nat.simps [simp del]

definition str_int :: "int \<Rightarrow> string" where
  "str_int i = (if i < 0 then CHR ''-'' # str_nat (nat (- i)) else str_nat (nat i))"

text \<open>\<^verbatim>\<open>str(v)\<close>.\<close>

fun py_str :: "pyval \<Rightarrow> string" where
  "py_str VNone = ''None''"
| "py_str VNaN = ''nan''"
| "py_str (VStr s) = s"
| "py_str (VInt i) = str_int i"
| "py_str (VBool b) = (if b then ''True'' else ''False'')"
| "py_str (VFloat s t z) = s"

text \<open>The truth value of a cell (\<^verbatim>\<open>not v\<close>, \<^verbatim>\<open>a or b\<close>); NaN is true.\<close>

fun truthy :: "pyval \<Rightarrow> bool" where
  "truthy VNone = False"
| "truthy VNaN = True"
| "truthy (VStr s) = (s \<noteq> [])"
| "truthy (VInt i) = (i \<noteq> 0)"
| "truthy (VBool b) = b"
| "truthy (VFloat s t z) = z"

text \<open>
  \<^verbatim>\<open>str.isspace\<close> on one character: tab to carriage return, the four separators
  0x1c to 0x1f, the space, NEL and the no-break space.
\<close>

definition isspace :: "char \<Rightarrow> bool" where
  "isspace c = (let n = of_char c :: nat in
     (9 \<le> n \<and> n \<le> 13) \<or> (28 \<le> n \<and> n \<le> 32) \<or> n = 133 \<or> n = 160)"

definition strip :: "string \<Rightarrow> string" where
  "strip s = rev (dropWhile isspace (rev (dropWhile isspace s)))"

text \<open>\<^verbatim>\<open>str.lower\<close>: the ASCII capitals and the Latin-1 capitals (the sign 0xd7 apart).\<close>

definition lower_char :: "char \<Rightarrow> char" where
  "lower_char c = (let n = of_char c :: nat in
     if (65 \<le> n \<and> n \<le> 90) \<or> (192 \<le> n \<and> n \<le> 222 \<and> n \<noteq> 215) then char_of (n + 32) else c)"

definition lower :: "string \<Rightarrow> string" where
  "lower s = map lower_char s"

text \<open>\<^verbatim>\<open>sub in s\<close> on strings.\<close>

fun contains :: "string \<Rightarrow> string \<Rightarrow> bool" where
  "contains sub [] = (sub = [])"
| "contains sub (c # cs) = (take (length sub) (c # cs) = sub \<or> contains sub cs)"

text \<open>
  \<^verbatim>\<open>s.split(sep)\<close> for a non-empty separator: the pieces between the occurrences of
  \<open>sep\<close>, found from the left without overlap. \<open>acc\<close> is the piece being read,
  reversed. (Python raises ValueError on an empty separator; the loader only splits
  on \<^verbatim>\<open>"v="\<close> and \<^verbatim>\<open>"&"\<close>.)
\<close>

fun split_from :: "string \<Rightarrow> string \<Rightarrow> string \<Rightarrow> string list" where
  "split_from sep acc [] = [rev acc]"
| "split_from sep acc (c # cs) =
     (if sep \<noteq> [] \<and> take (length sep) (c # cs) = sep
      then rev acc # split_from sep [] (drop (length sep - 1) cs)
      else split_from sep (c # acc) cs)"

definition py_split :: "string \<Rightarrow> string \<Rightarrow> string list" where
  "py_split sep s = split_from sep [] s"

section \<open>Identifier resolution\<close>

text \<open>
  The test of lines 116 and 120 of \<^verbatim>\<open>vector_db.py\<close> on an ID field:
  \<^verbatim>\<open>pd.notna(vid) and vid is not None and str(vid).strip() and str(vid).lower() != "nan"\<close>.
\<close>

definition id_usable :: "pyval \<Rightarrow> bool" where
  "id_usable vid = (notna vid \<and> vid \<noteq> VNone \<and> strip (py_str vid) \<noteq> [] \<and> lower (py_str vid) \<noteq> ''nan'')"

text \<open>
  Lines 125 to 131: the ID read from the URL. \<open>None\<close> is every way of falling through
  to the fallback: the guard fails, an index is out of range (the \<^verbatim>\<open>except\<close> branch),
  or the piece is empty.
\<close>

definition url_video_id :: "pyval \<Rightarrow> string option" where
  "url_video_id url =
     (if notna url \<and> url \<noteq> VNone \<and> contains ''v='' (py_str url) then
        (case py_split ''v='' (py_str url) of
           _ # seg # _ \<Rightarrow>
             (case py_split ''&'' seg of
                vid_from_url # _ \<Rightarrow> (if vid_from_url \<noteq> [] then Some vid_from_url else None)
              | [] \<Rightarrow> None)
         | _ \<Rightarrow> None)
      else None)"

definition get_valid_video_id :: "row \<Rightarrow> nat \<Rightarrow> string" where
  "get_valid_video_id r idx =
     (if id_usable (row_get r ''video_id'') then strip (py_str (row_get r ''video_id''))
      else if id_usable (row_get r ''id'') then strip (py_str (row_get r ''id''))
      else (case url_video_id (row_get r ''url'') of
              Some vid_from_url \<Rightarrow> vid_from_url
            | None \<Rightarrow> ''vid_'' @ str_nat idx))"

section \<open>Unique identifiers\<close>

text \<open>
  Lines 162 to 166: \<^verbatim>\<open>while vid in used_ids: vid = f"{original_vid}_{counter}"; counter += 1\<close>.
  The loop ends because \<open>used_ids\<close> is finite and the suffixed names are pairwise
  different; the lemmas before the definition are what its termination proof needs.
\<close>

definition suffixed :: "string \<Rightarrow> nat \<Rightarrow> string" where
  "suffixed original_vid counter = original_vid @ ''_'' @ str_nat counter"

definition digit_val :: "char \<Rightarrow> nat" where
  "digit_val c = of_char c - 48"

definition nat_of_digits :: "string \<Rightarrow> nat" where
  "nat_of_digits s = foldl (\<lambda>a c. 10 * a + digit_val c) 0 s"

definition pending :: "string fset \<Rightarrow> string \<Rightarrow> nat \<Rightarrow> nat set" where
  "pending used b c = {k. c \<le> k \<and> suffixed b k |\<in>| used}"

lemma digit_val_digit_char: "d < 10 \<Longrightarrow> digit_val (digit_char d) = d"
  by (simp add: digit_val_def digit_char_def)

lemma nat_of_digits_str_nat: "nat_of_digits (str_nat n) = n"
proof (induction n rule: str_nat.induct)
  case (1 n)
  show ?case
  proof (cases "n < 10")
    case True
    then show ?thesis
      by (subst str_nat.simps) (simp add: nat_of_digits_def digit_val_digit_char)
  next
    case False
    with 1 have "nat_of_digits (str_nat (n div 10)) = n div 10" by simp
    with False show ?thesis
      by (subst str_nat.simps) (simp add: nat_of_digits_def digit_val_digit_char)
  qed
qed

lemma str_nat_inj: "str_nat m = str_nat n \<Longrightarrow> m = n"
  by (metis nat_of_digits_str_nat)

lemma suffixed_inj: "suffixed b m = suffixed b n \<Longrightarrow> m = n"
  by (simp add: suffixed_def str_nat_inj)

lemma finite_pending: "finite (pending used b c)"
proof -
  have "inj_on (suffixed b) (pending used b c)"
    by (auto simp: inj_on_def dest: suffixed_inj)
  moreover have "suffixed b ` pending used b c \<subseteq> fset used"
    by (auto simp: pending_def)
  ultimately show ?thesis
    by (meson finite_fset finite_imageD finite_subset)
qed

lemma pending_Suc: "pending used b (Suc c) = pending used b c - {c}"
  by (auto simp: pending_def)

function unique_from :: "string fset \<Rightarrow> string \<Rightarrow> string \<Rightarrow> nat \<Rightarrow> string" where
  "unique_from used_ids original_vid vid counter =
     (if vid |\<in>| used_ids
      then unique_from used_ids original_vid (suffixed original_vid counter) (Suc counter)
      else vid)"
  by pat_completeness auto
termination
proof (relation "measure (\<lambda>(used, b, vid, c). card (pending used b c) + (if vid |\<in>| used then 1 else 0))")
  show "wf (measure (\<lambda>(used, b, vid, c). card (pending used b c) + (if vid |\<in>| used then 1 else 0)))"
    by simp
next
  fix used_ids :: "string fset" and original_vid vid :: string and counter :: nat
  assume "vid |\<in>| used_ids"
  show "((used_ids, original_vid, suffixed original_vid counter, Suc counter),
         (used_ids, original_vid, vid, counter))
        \<in> measure (\<lambda>(used, b, vid, c). card (pending used b c) + (if vid |\<in>| used then 1 else 0))"
  proof (cases "suffixed original_vid counter |\<in>| used_ids")
    case True
    then have "counter \<in> pending used_ids original_vid counter"
      by (simp add: pending_def)
    then have "card (pending used_ids original_vid (Suc counter)) < card (pending used_ids original_vid counter)"
      unfolding pending_Suc by (rule card_Diff1_less [OF finite_pending])
    with True \<open>vid |\<in>| used_ids\<close> show ?thesis by simp
  next
    case False
    have "card (pending used_ids original_vid (Suc counter)) \<le> card (pending used_ids original_vid counter)"
      by (simp add: pending_Suc finite_pending card_Diff_subset_Int card_mono)
    with False \<open>vid |\<in>| used_ids\<close> show ?thesis by simp
  qed
qed

declare unique_from.simps [simp del]

text \<open>Lines 162 to 166 with their initial values: \<^verbatim>\<open>original_vid = vid; counter = 1\<close>.\<close>

definition unique_id :: "string fset \<Rightarrow> string \<Rightarrow> string" where
  "unique_id used_ids vid = unique_from used_ids vid vid 1"

section \<open>Embeddings, document text and metadata\<close>

text \<open>
  \<^verbatim>\<open>ast.literal_eval\<close>, \<^verbatim>\<open>json.loads\<close>, \<^verbatim>\<open>list\<close> and \<^verbatim>\<open>int\<close> on a string belong to Python,
  not to this repository: they are parameters. \<open>None\<close> is a raised exception (all of
  theirs are subclasses of \<^verbatim>\<open>Exception\<close>). \<open>'v\<close> is a parsed value, \<open>'e\<close> an element of
  the list made from it.
\<close>

record ('v, 'e) pylib =
  literal_eval :: "string \<Rightarrow> 'v option"
  json_loads :: "string \<Rightarrow> 'v option"
  py_list :: "'v \<Rightarrow> 'e list option"
  int_of_str :: "string \<Rightarrow> int option"

text \<open>
  Lines 19 to 34. A cell of the CSV is never a list or a tuple, so the branch of line 32
  is the final \<open>None\<close> here.
\<close>

definition ensure_embedding_list :: "('v, 'e) pylib \<Rightarrow> pyval \<Rightarrow> 'e list option" where
  "ensure_embedding_list L x =
     (if isna x \<or> x = VNone \<or> x = VStr [] then None
      else (case x of
              VStr s \<Rightarrow>
                (case Option.bind (literal_eval L s) (py_list L) of
                   Some val \<Rightarrow> Some val
                 | None \<Rightarrow>
                     (case Option.bind (json_loads L s) (py_list L) of
                        Some val \<Rightarrow> Some val
                      | None \<Rightarrow> None))
            | _ \<Rightarrow> None))"

text \<open>\<^verbatim>\<open>row.get(k) if k in row else None\<close>, and \<^verbatim>\<open>a or b\<close>.\<close>

definition field_or_none :: "row \<Rightarrow> string \<Rightarrow> pyval" where
  "field_or_none r k = (if row_has r k then row_get r k else VNone)"

definition py_or :: "pyval \<Rightarrow> pyval \<Rightarrow> pyval" where
  "py_or a b = (if truthy a then a else b)"

text \<open>Lines 176 to 180: the candidate kept as \<^verbatim>\<open>raw_doc\<close>.\<close>

definition raw_document :: "row \<Rightarrow> pyval" where
  "raw_document r =
     (let raw_doc = field_or_none r ''transcript_clean'';
          raw_doc = (if \<not> truthy raw_doc \<or> isna raw_doc
                     then field_or_none r ''combined_text'' else raw_doc);
          raw_doc = (if \<not> truthy raw_doc \<or> isna raw_doc
                     then field_or_none r ''transcript'' else raw_doc)
      in raw_doc)"

text \<open>Lines 183 to 186: \<^verbatim>\<open>safe_doc\<close>.\<close>

definition safe_document :: "row \<Rightarrow> string" where
  "safe_document r =
     (let raw_doc = raw_document r in
      if isna raw_doc \<or> raw_doc = VNone then [] else py_str raw_doc)"

text \<open>
  \<^verbatim>\<open>str.isdigit\<close>: a non-empty string of decimal digits or of the superscripts
  two, three and one; \<^verbatim>\<open>int(v)\<close>, \<open>None\<close> where it raises.
\<close>

definition isdigit_char :: "char \<Rightarrow> bool" where
  "isdigit_char c = (let n = of_char c :: nat in
     (48 \<le> n \<and> n \<le> 57) \<or> n = 178 \<or> n = 179 \<or> n = 185)"

definition isdigit :: "string \<Rightarrow> bool" where
  "isdigit s = (s \<noteq> [] \<and> list_all isdigit_char s)"

fun py_int :: "('v, 'e) pylib \<Rightarrow> pyval \<Rightarrow> int option" where
  "py_int L VNone = None"
| "py_int L VNaN = None"
| "py_int L (VStr s) = int_of_str L s"
| "py_int L (VInt i) = Some i"
| "py_int L (VBool b) = Some (if b then 1 else 0)"
| "py_int L (VFloat s t z) = t"

record metadata =
  title :: string
  channel_title :: string
  view_count :: "int option"
  duration_seconds :: "int option"

text \<open>Lines 189 to 209.\<close>

definition row_metadata :: "('v, 'e) pylib \<Rightarrow> row \<Rightarrow> metadata" where
  "row_metadata L r =
     (let viewc = row_get r ''view_count'';
          viewc_int = (if viewc \<noteq> VNone \<and> isdigit (strip (py_str viewc))
                       then py_int L viewc else None);
          duration_sec = (if row_has r ''duration_seconds'' \<and> \<not> isna (row_get r ''duration_seconds'')
                          then py_int L (row_get r ''duration_seconds'') else None)
      in \<lparr>title = py_str (py_or (row_get r ''title'') (py_or (row_get r ''title_clean'') (VStr []))),
          channel_title = (if row_has r ''channel_title''
                           then py_str (py_or (row_get r ''channel_title'') (VStr [])) else []),
          view_count = viewc_int,
          duration_seconds = duration_sec\<rparr>)"

section \<open>The row loop of the loader\<close>

text \<open>
  The four lists and the set of lines 148 to 154, and the lines the loop prints.
  Rows are numbered from 0, as \<^verbatim>\<open>df.iterrows()\<close> numbers the rows of a frame read
  by \<^verbatim>\<open>pd.read_csv\<close>.
\<close>

datatype line = Skipping nat string

record 'e acc =
  ids :: "string list"
  metadatas :: "metadata list"
  embeddings :: "'e list list"
  documents :: "string list"
  used_ids :: "string fset"
  printed :: "line list"

definition empty_acc :: "'e acc" where
  "empty_acc = \<lparr>ids = [], metadatas = [], embeddings = [], documents = [], used_ids = {||}, printed = []\<rparr>"

text \<open>Lines 159 to 210: one pass of the loop body.\<close>

definition process_row :: "('v, 'e) pylib \<Rightarrow> nat \<Rightarrow> row \<Rightarrow> 'e acc \<Rightarrow> 'e acc" where
  "process_row L idx r a =
     (let vid = unique_id (used_ids a) (get_valid_video_id r idx);
          a = a\<lparr>used_ids := finsert vid (used_ids a)\<rparr>
      in (case ensure_embedding_list L (row_get r ''embedding'') of
            None \<Rightarrow> a\<lparr>printed := printed a @ [Skipping idx vid]\<rparr>
          | Some emb \<Rightarrow>
              a\<lparr>ids := ids a @ [vid],
                documents := documents a @ [safe_document r],
                metadatas := metadatas a @ [row_metadata L r],
                embeddings := embeddings a @ [emb]\<rparr>))"

fun iterrows_from :: "('v, 'e) pylib \<Rightarrow> nat \<Rightarrow> row list \<Rightarrow> 'e acc \<Rightarrow> 'e acc" where
  "iterrows_from L idx [] a = a"
| "iterrows_from L idx (r # rs) a = iterrows_from L (Suc idx) rs (process_row L idx r a)"

definition iterrows :: "('v, 'e) pylib \<Rightarrow> row list \<Rightarrow> 'e acc" where
  "iterrows L df = iterrows_from L 0 df empty_acc"

text \<open>
  The unique ID that lines 159 to 167 give each row, whatever its embedding is: the
  same recursion with the set of used IDs alone.
\<close>

fun row_ids_from :: "string fset \<Rightarrow> nat \<Rightarrow> row list \<Rightarrow> string list" where
  "row_ids_from used idx [] = []"
| "row_ids_from used idx (r # rs) =
     (let vid = unique_id used (get_valid_video_id r idx)
      in vid # row_ids_from (finsert vid used) (Suc idx) rs)"

definition row_ids :: "row list \<Rightarrow> string list" where
  "row_ids df = row_ids_from {||} 0 df"

text \<open>
  Whether line 169 finds an embedding in a row, and the list it finds. The condition
  asserted at line 218.
\<close>

definition parsable :: "('v, 'e) pylib \<Rightarrow> row \<Rightarrow> bool" where
  "parsable L r = (ensure_embedding_list L (row_get r ''embedding'') \<noteq> None)"

definition parsed :: "('v, 'e) pylib \<Rightarrow> row \<Rightarrow> 'e list" where
  "parsed L r = the (ensure_embedding_list L (row_get r ''embedding''))"

definition lengths_match :: "'e acc \<Rightarrow> bool" where
  "lengths_match a =
     (length (documents a) = length (ids a) \<and> length (ids a) = length (metadatas a)
      \<and> length (metadatas a) = length (embeddings a))"

section \<open>Exceptions, external calls and the store\<close>

text \<open>
  An exception is known by its class. \<^verbatim>\<open>except Exception\<close> catches the classes
  under \<^verbatim>\<open>Exception\<close> only: KeyboardInterrupt, SystemExit and any other class that
  derives from \<^verbatim>\<open>BaseException\<close> alone (a panic of a compiled extension) pass
  through it. The calls a job makes to the file system, to
  \<^verbatim>\<open>chromadb\<close> and to the embedding model are recorded in the order they are made; the
  number of an insert call is the start \<^verbatim>\<open>i\<close> of its batch. \<open>'s\<close> is the state of the
  vector store: only the calls on a collection and \<^verbatim>\<open>persist\<close> change it, and a call
  that raises may have changed it too.
\<close>

datatype exn =
    FileNotFoundError | ValueError | TypeError | AttributeError | ImportError
  | OSError | RuntimeError | AssertionError | OtherError
  | KeyboardInterrupt | SystemExit | OtherBaseException

fun is_Exception :: "exn \<Rightarrow> bool" where
  "is_Exception KeyboardInterrupt = False"
| "is_Exception SystemExit = False"
| "is_Exception OtherBaseException = False"
| "is_Exception _ = True"

datatype call =
    ReadCsv | ImportChromadb | Mkdir
  | PersistentClient | HttpClient | SettingsClient | PathClient
  | GetOrCreateCollection | CreateCollection | GetCollection
  | AddKeyword nat | AddPositional nat | Upsert nat | Persist
  | EmbedTexts | ToCsv

record 's world =
  store :: 's
  calls :: "call list"

definition invoke :: "call \<Rightarrow> ('s \<Rightarrow> exn option \<times> 's) \<Rightarrow> 's world \<Rightarrow> exn option \<times> 's world" where
  "invoke c f w = (case f (store w) of (r, s') \<Rightarrow> (r, \<lparr>store = s', calls = calls w @ [c]\<rparr>))"

type_synonym 'e batch = "string list \<times> string list \<times> metadata list \<times> 'e list list"

text \<open>
  A collection and a client of \<^verbatim>\<open>chromadb\<close>: a method that the object does not have
  (\<^verbatim>\<open>hasattr\<close> is false) is \<open>None\<close>.
\<close>

record ('s, 'e) collection =
  add_keyword :: "'e batch \<Rightarrow> 's \<Rightarrow> exn option \<times> 's"
  add_positional :: "'e batch \<Rightarrow> 's \<Rightarrow> exn option \<times> 's"
  upsert :: "('e batch \<Rightarrow> 's \<Rightarrow> exn option \<times> 's) option"

record ('s, 'e) client =
  get_or_create_collection_m :: "(string \<Rightarrow> exn + ('s, 'e) collection) option"
  create_collection_m :: "(string \<Rightarrow> exn + ('s, 'e) collection) option"
  get_collection_m :: "(string \<Rightarrow> exn + ('s, 'e) collection) option"
  persist_m :: "('s \<Rightarrow> exn option \<times> 's) option"

text \<open>
  What the installed \<^verbatim>\<open>chromadb\<close> and the file system answer to lines 37 to 79:
  the import, \<^verbatim>\<open>mkdir(exist_ok=True)\<close> (\<open>None\<close> when they succeed), and the four
  constructions.
\<close>

record 'c chromadb =
  import_chromadb :: "exn option"
  mkdir :: "exn option"
  persistent_client :: "exn + 'c"
  http_client :: "exn + 'c"
  settings_client :: "exn + 'c"
  path_client :: "exn + 'c"

section \<open>The client and the collection\<close>

text \<open>
  Lines 36 to 85. The import and \<^verbatim>\<open>mkdir\<close> stand outside every \<^verbatim>\<open>try\<close>. Each
  construction stands in a \<^verbatim>\<open>try\<close> whose handlers catch \<^verbatim>\<open>Exception\<close>: such an
  exception leads to the next construction, any other one leaves the function.
\<close>

definition create_chroma_client :: "'c chromadb \<Rightarrow> (exn + 'c) \<times> call list" where
  "create_chroma_client db =
     (case import_chromadb db of
        Some e \<Rightarrow> (Inl e, [ImportChromadb])
      | None \<Rightarrow>
     (case mkdir db of
        Some e \<Rightarrow> (Inl e, [ImportChromadb, Mkdir])
      | None \<Rightarrow>
     (case persistent_client db of
        Inr client \<Rightarrow> (Inr client, [ImportChromadb, Mkdir, PersistentClient])
      | Inl e1 \<Rightarrow>
          if \<not> is_Exception e1 then (Inl e1, [ImportChromadb, Mkdir, PersistentClient])
          else
     (case http_client db of
        Inr client \<Rightarrow> (Inr client, [ImportChromadb, Mkdir, PersistentClient, HttpClient])
      | Inl e2 \<Rightarrow>
          if \<not> is_Exception e2
          then (Inl e2, [ImportChromadb, Mkdir, PersistentClient, HttpClient])
          else
     (case settings_client db of
        Inr client \<Rightarrow>
          (Inr client, [ImportChromadb, Mkdir, PersistentClient, HttpClient, SettingsClient])
      | Inl e3 \<Rightarrow>
          if \<not> is_Exception e3
          then (Inl e3, [ImportChromadb, Mkdir, PersistentClient, HttpClient, SettingsClient])
          else
     (case path_client db of
        Inr client \<Rightarrow>
          (Inr client,
           [ImportChromadb, Mkdir, PersistentClient, HttpClient, SettingsClient, PathClient])
      | Inl e4 \<Rightarrow>
          if \<not> is_Exception e4
          then (Inl e4,
                [ImportChromadb, Mkdir, PersistentClient, HttpClient, SettingsClient, PathClient])
          else
            (Inl RuntimeError,
             [ImportChromadb, Mkdir, PersistentClient, HttpClient, SettingsClient, PathClient])))))))"

text \<open>A construction that raised an exception which its \<^verbatim>\<open>try\<close> catches.\<close>

definition falls_through :: "exn + 'c \<Rightarrow> bool" where
  "falls_through r = (case r of Inl e \<Rightarrow> is_Exception e | Inr c \<Rightarrow> False)"

text \<open>
  Lines 87 to 110. An exception under \<^verbatim>\<open>Exception\<close> of \<^verbatim>\<open>create_collection\<close> is
  caught at line 98; any other one under \<^verbatim>\<open>Exception\<close> at line 107, and then line
  110 raises RuntimeError (\<open>reraised\<close>). An exception outside \<^verbatim>\<open>Exception\<close> leaves
  the function as it is.
\<close>

definition reraised :: "exn \<Rightarrow> exn" where
  "reraised e = (if is_Exception e then RuntimeError else e)"

definition get_or_create_collection ::
  "('s, 'e) client \<Rightarrow> string \<Rightarrow> (exn + ('s, 'e) collection) \<times> call list" where
  "get_or_create_collection client name =
     (case get_or_create_collection_m client of
        Some f \<Rightarrow>
          (case f name of
             Inr collection \<Rightarrow> (Inr collection, [GetOrCreateCollection])
           | Inl e \<Rightarrow> (Inl (reraised e), [GetOrCreateCollection]))
      | None \<Rightarrow>
          (case create_collection_m client of
             Some f \<Rightarrow>
               (case f name of
                  Inr collection \<Rightarrow> (Inr collection, [CreateCollection])
                | Inl e \<Rightarrow>
                    if \<not> is_Exception e then (Inl e, [CreateCollection])
                    else
                      (case get_collection_m client of
                         Some g \<Rightarrow>
                           (case g name of
                              Inr collection \<Rightarrow>
                                (Inr collection, [CreateCollection, GetCollection])
                            | Inl e' \<Rightarrow> (Inl (reraised e'), [CreateCollection, GetCollection]))
                       | None \<Rightarrow> (Inl RuntimeError, [CreateCollection])))
           | None \<Rightarrow>
               (case get_collection_m client of
                  Some g \<Rightarrow>
                    (case g name of
                       Inr collection \<Rightarrow> (Inr collection, [GetCollection])
                     | Inl e \<Rightarrow> (Inl (reraised e), [GetCollection]))
                | None \<Rightarrow> (Inl RuntimeError, []))))"

section \<open>Batches\<close>

definition BATCH :: nat where
  "BATCH = 256"

text \<open>\<^verbatim>\<open>range(i, n, step)\<close> for a positive step, and the slice \<^verbatim>\<open>xs[i:j]\<close>.\<close>

function py_range :: "nat \<Rightarrow> nat \<Rightarrow> nat \<Rightarrow> nat list" where
  "py_range i n step = (if i < n \<and> 0 < step then i # py_range (i + step) n step else [])"
  by pat_completeness auto
termination
  by (relation "measure (\<lambda>(i, n, step). n - i)") auto

declare py_range.simps [simp del]

definition slice :: "'a list \<Rightarrow> nat \<Rightarrow> nat \<Rightarrow> 'a list" where
  "slice xs i j = take (j - i) (drop i xs)"

text \<open>The records of a batch: the four parallel lists read side by side.\<close>

definition records :: "'e batch \<Rightarrow> (string \<times> string \<times> metadata \<times> 'e list) list" where
  "records b = (case b of (b_ids, b_docs, b_meta, b_emb) \<Rightarrow> zip b_ids (zip b_docs (zip b_meta b_emb)))"

text \<open>Lines 224 to 228: the batch that starts at \<open>i\<close>.\<close>

definition batch_at :: "'e batch \<Rightarrow> nat \<Rightarrow> nat \<Rightarrow> 'e batch" where
  "batch_at all n i =
     (case all of (all_ids, all_docs, all_meta, all_emb) \<Rightarrow>
        (let j = min (i + BATCH) n
         in (slice all_ids i j, slice all_docs i j, slice all_meta i j, slice all_emb i j)))"

text \<open>
  Lines 229 to 248: the insertion of one batch. Line 237 catches TypeError alone and
  line 242 \<^verbatim>\<open>Exception\<close>: after any other exception of the positional call neither
  \<^verbatim>\<open>upsert\<close> nor the \<^verbatim>\<open>raise\<close> of line 248 is reached, and it leaves the loop as it is.
\<close>

definition insert_batch ::
  "('s, 'e) collection \<Rightarrow> nat \<Rightarrow> 'e batch \<Rightarrow> 's world \<Rightarrow> exn option \<times> 's world" where
  "insert_batch collection i b w =
     (case invoke (AddKeyword i) (add_keyword collection b) w of
        (None, w1) \<Rightarrow> (None, w1)
      | (Some te, w1) \<Rightarrow>
          (if te = TypeError then
             (case invoke (AddPositional i) (add_positional collection b) w1 of
                (None, w2) \<Rightarrow> (None, w2)
              | (Some e2, w2) \<Rightarrow>
                  (if is_Exception e2 then
                     (case upsert collection of
                        Some up \<Rightarrow> invoke (Upsert i) (up b) w2
                      | None \<Rightarrow> (Some e2, w2))
                   else (Some e2, w2)))
           else (Some te, w1)))"

text \<open>Lines 223 to 248: the loop over the batch starts; an exception ends it.\<close>

fun insert_batches ::
  "('s, 'e) collection \<Rightarrow> 'e batch \<Rightarrow> nat \<Rightarrow> nat list \<Rightarrow> 's world \<Rightarrow> exn option \<times> 's world" where
  "insert_batches collection all n [] w = (None, w)"
| "insert_batches collection all n (i # starts) w =
     (case insert_batch collection i (batch_at all n i) w of
        (Some e, w') \<Rightarrow> (Some e, w')
      | (None, w') \<Rightarrow> insert_batches collection all n starts w')"

section \<open>The two jobs\<close>

definition COLLECTION_NAME :: string where
  "COLLECTION_NAME = ''youtube_videos''"

text \<open>
  Lines 251 to 256 of \<^verbatim>\<open>vector_db.py\<close>: an exception of \<^verbatim>\<open>persist\<close> under
  \<^verbatim>\<open>Exception\<close> is printed, any other one is raised.
\<close>

definition persist_client :: "('s, 'e) client \<Rightarrow> 's world \<Rightarrow> exn option \<times> 's world" where
  "persist_client client w =
     (case persist_m client of
        Some p \<Rightarrow>
          (case invoke Persist p w of
             (None, w') \<Rightarrow> (None, w')
           | (Some e, w') \<Rightarrow> (if is_Exception e then (None, w') else (Some e, w')))
      | None \<Rightarrow> (None, w))"

text \<open>
  \<^verbatim>\<open>main\<close> of \<^verbatim>\<open>vector_db.py\<close>, lines 136 to 256. \<open>file_exists\<close> and \<open>read_csv\<close> are
  what the file system answers to lines 138 and 142. The exception raised, if any, is
  returned with the store and the calls made. The report printed after line 256 reads
  the directory and changes nothing; it is left out.
\<close>

definition vector_db_main ::
  "bool \<Rightarrow> exn + row list \<Rightarrow> ('v, 'e) pylib \<Rightarrow> ('s, 'e) client chromadb \<Rightarrow> 's
     \<Rightarrow> exn option \<times> 's world" where
  "vector_db_main file_exists read_csv L db s0 =
     (if \<not> file_exists then (Some FileNotFoundError, \<lparr>store = s0, calls = []\<rparr>)
      else
        (case read_csv of
           Inl e \<Rightarrow> (Some e, \<lparr>store = s0, calls = [ReadCsv]\<rparr>)
         | Inr df \<Rightarrow>
             (case create_chroma_client db of
                (Inl e, cs) \<Rightarrow> (Some e, \<lparr>store = s0, calls = ReadCsv # cs\<rparr>)
              | (Inr client, cs) \<Rightarrow>
                  (case get_or_create_collection client COLLECTION_NAME of
                     (Inl e, cs') \<Rightarrow> (Some e, \<lparr>store = s0, calls = ReadCsv # cs @ cs'\<rparr>)
                   | (Inr collection, cs') \<Rightarrow>
                       (let a = iterrows L df;
                            w = \<lparr>store = s0, calls = ReadCsv # cs @ cs'\<rparr>;
                            n = length (ids a)
                        in if ids a = [] then (None, w)
                           else if \<not> lengths_match a then (Some AssertionError, w)
                           else
                             (case insert_batches collection
                                     (ids a, documents a, metadatas a, embeddings a) n
                                     (py_range 0 n BATCH) w of
                                (Some e, w') \<Rightarrow> (Some e, w')
                              | (None, w') \<Rightarrow> persist_client client w'))))))"

text \<open>
  \<^verbatim>\<open>main\<close> of \<^verbatim>\<open>embed.py\<close>. A frame has its columns and its rows; \<open>embed_texts\<close> is
  the model of lines 11 to 15 and \<open>to_csv\<close> the writing of line 31, both outside this
  repository. Line 30 raises ValueError when the model did not return one vector for
  each row. The result is the frame and the column written.
\<close>

record table =
  columns :: "string list"
  rows :: "row list"

definition fillna_empty :: "pyval \<Rightarrow> pyval" where
  "fillna_empty v = (if isna v then VStr [] else v)"

definition embed_main ::
  "bool \<Rightarrow> exn + table \<Rightarrow> (pyval list \<Rightarrow> exn + 'm list) \<Rightarrow> (table \<Rightarrow> 'm list \<Rightarrow> exn option)
     \<Rightarrow> (exn + table \<times> 'm list) \<times> call list" where
  "embed_main file_exists read_csv embed_texts to_csv =
     (if \<not> file_exists then (Inl FileNotFoundError, [])
      else
        (case read_csv of
           Inl e \<Rightarrow> (Inl e, [ReadCsv])
         | Inr df \<Rightarrow>
             (if ''combined_text'' \<notin> set (columns df) then (Inl ValueError, [ReadCsv])
              else
                (let texts = map (\<lambda>r. fillna_empty (row_get r ''combined_text'')) (rows df)
                 in (case embed_texts texts of
                       Inl e \<Rightarrow> (Inl e, [ReadCsv, EmbedTexts])
                     | Inr vectors \<Rightarrow>
                         (if length vectors \<noteq> length (rows df)
                          then (Inl ValueError, [ReadCsv, EmbedTexts])
                          else
                            (case to_csv df vectors of
                               Some e \<Rightarrow> (Inl e, [ReadCsv, EmbedTexts, ToCsv])
                             | None \<Rightarrow> (Inr (df, vectors), [ReadCsv, EmbedTexts, ToCsv]))))))))"

section \<open>The embedding column between the two jobs\<close>

text \<open>
  A component of an embedding vector once line 30 of \<^verbatim>\<open>embed.py\<close> has made it a Python
  float: a finite float, NaN or an infinity. A finite float is carried by the text that
  \<^verbatim>\<open>repr\<close> writes for it, which Python reads back to the same float; what the claim
  leaves open with "up to serialization precision" is thereby outside the model.
\<close>

datatype pyfloat = Finite string | NotANumber | Infinity bool

fun float_repr :: "pyfloat \<Rightarrow> string" where
  "float_repr (Finite s) = s"
| "float_repr NotANumber = ''nan''"
| "float_repr (Infinity negative) = (if negative then ''-inf'' else ''inf'')"

text \<open>
  Lines 30 and 31 of \<^verbatim>\<open>embed.py\<close>: \<^verbatim>\<open>to_csv\<close> writes the list of a cell as \<^verbatim>\<open>str\<close> of
  the list, the \<^verbatim>\<open>repr\<close> of its components joined by a comma and a space, in brackets.
\<close>

fun join :: "string \<Rightarrow> string list \<Rightarrow> string" where
  "join sep [] = []"
| "join sep [x] = x"
| "join sep (x # y # ys) = x @ sep @ join sep (y # ys)"

definition str_list :: "pyfloat list \<Rightarrow> string" where
  "str_list emb = ''['' @ join '', '' (map float_repr emb) @ '']''"

text \<open>
  Line 142 of \<^verbatim>\<open>vector_db.py\<close>: \<^verbatim>\<open>read_csv\<close> reads the texts of its default list of
  missing values as NaN and gives any other text of the column as it is.
\<close>

definition na_values :: "string list" where
  "na_values =
     ['''', ''#N/A'', ''#N/A N/A'', ''#NA'', ''-1.#IND'', ''-1.#QNAN'', ''-NaN'', ''-nan'',
      ''1.#IND'', ''1.#QNAN'', ''<NA>'', ''N/A'', ''NA'', ''NULL'', ''NaN'', ''None'', ''n/a'',
      ''nan'', ''null'']"

definition read_cell :: "string \<Rightarrow> pyval" where
  "read_cell s = (if s \<in> set na_values then VNaN else VStr s)"

text \<open>
  Modelled from the library's documentation: the number literals that \<^verbatim>\<open>ast.literal_eval\<close>
  and \<^verbatim>\<open>json.loads\<close> read, in the forms that \<^verbatim>\<open>repr\<close> writes: an optional minus sign,
  digits, an optional fraction, an optional exponent. \<^verbatim>\<open>nan\<close> and \<^verbatim>\<open>inf\<close> are names,
  not literals; \<^verbatim>\<open>json.loads\<close> reads \<^verbatim>\<open>NaN\<close>, \<^verbatim>\<open>Infinity\<close> and \<^verbatim>\<open>-Infinity\<close> besides.
\<close>

definition isdig :: "char \<Rightarrow> bool" where
  "isdig c = (let n = of_char c :: nat in 48 \<le> n \<and> n \<le> 57)"

definition exponent_ok :: "string \<Rightarrow> bool" where
  "exponent_ok s =
     (case s of
        [] \<Rightarrow> False
      | c # r \<Rightarrow>
          c = CHR ''e'' \<and>
          (let d = (case r of
                      [] \<Rightarrow> r
                    | x # t \<Rightarrow> if x = CHR ''+'' \<or> x = CHR ''-'' then t else r)
           in d \<noteq> [] \<and> list_all isdig d))"

definition fraction_ok :: "string \<Rightarrow> bool" where
  "fraction_ok r =
     (case r of
        [] \<Rightarrow> True
      | c # q \<Rightarrow>
          if c = CHR ''.''
          then takeWhile isdig q \<noteq> [] \<and>
               (dropWhile isdig q = [] \<or> exponent_ok (dropWhile isdig q))
          else exponent_ok r)"

definition is_number_literal :: "string \<Rightarrow> bool" where
  "is_number_literal s =
     (let u = (case s of [] \<Rightarrow> s | c # r \<Rightarrow> if c = CHR ''-'' then r else s)
      in takeWhile isdig u \<noteq> [] \<and> fraction_ok (dropWhile isdig u))"

definition literal_number :: "string \<Rightarrow> pyfloat option" where
  "literal_number s = (if is_number_literal s then Some (Finite s) else None)"

definition json_number :: "string \<Rightarrow> pyfloat option" where
  "json_number s =
     (if s = ''NaN'' then Some NotANumber
      else if s = ''Infinity'' then Some (Infinity False)
      else if s = ''-Infinity'' then Some (Infinity True)
      else literal_number s)"

text \<open>
  Modelled from the library's documentation: \<^verbatim>\<open>ast.literal_eval\<close> and \<^verbatim>\<open>json.loads\<close> on
  the display of a list of numbers, \<^verbatim>\<open>[x1, x2, ...]\<close>, with \<open>elem\<close> reading one number.
  The other literals (strings, dictionaries, nested lists), which the embedder never
  writes, are not covered.
\<close>

definition parse_list :: "(string \<Rightarrow> 'a option) \<Rightarrow> string \<Rightarrow> 'a list option" where
  "parse_list elem s =
     (case strip s of
        [] \<Rightarrow> None
      | c # r \<Rightarrow>
          if c = CHR ''['' \<and> r \<noteq> [] \<and> last r = CHR '']''
          then (let body = butlast r
                in if strip body = [] then Some []
                   else those (map (\<lambda>p. elem (strip p)) (py_split '','' body)))
          else None)"

text \<open>A finite component with a well-formed text, and the library of this model.\<close>

definition finite_float :: "pyfloat \<Rightarrow> bool" where
  "finite_float x = (case x of Finite s \<Rightarrow> is_number_literal s | _ \<Rightarrow> False)"

definition doc_lib :: "(pyfloat list, pyfloat) pylib" where
  "doc_lib =
     \<lparr>literal_eval = parse_list literal_number,
      json_loads = parse_list json_number,
      py_list = Some,
      int_of_str = (\<lambda>s. None)\<rparr>"

section \<open>Example inputs\<close>

text \<open>
  A Python library that reads only the literal \<^verbatim>\<open>[1, 2]\<close>, and small frames: one with
  a repeated ID, one whose first row has no embedding.
\<close>

definition example_lib :: "(int list, int) pylib" where
  "example_lib =
     \<lparr>literal_eval = (\<lambda>s. if s = ''[1, 2]'' then Some [1, 2] else None),
      json_loads = (\<lambda>s. None),
      py_list = Some,
      int_of_str = (\<lambda>s. None)\<rparr>"

definition example_duplicates :: "row list" where
  "example_duplicates =
     [map_of [(''video_id'', VStr ''vid_3''), (''embedding'', VStr ''[1, 2]'')],
      map_of [(''embedding'', VStr ''[1, 2]'')],
      map_of [(''embedding'', VStr ''[1, 2]'')],
      map_of [(''url'', VStr ''no id here''), (''embedding'', VStr ''[1, 2]'')]]"

definition example_skipped :: "row list" where
  "example_skipped =
     [map_of [(''video_id'', VStr ''a''), (''embedding'', VNaN)],
      map_of [(''video_id'', VStr ''a''), (''embedding'', VStr ''[1, 2]'')]]"

text \<open>
  A store that keeps the IDs inserted, behind a collection whose calls succeed, and the
  row of the specification's example: an ID, no transcript, a combined text.
\<close>

definition example_collection :: "(string list, int) collection" where
  "example_collection =
     \<lparr>add_keyword = (\<lambda>b s. (None, s @ fst b)),
      add_positional = (\<lambda>b s. (None, s @ fst b)),
      upsert = None\<rparr>"

definition example_client :: "(string list, int) client" where
  "example_client =
     \<lparr>get_or_create_collection_m = Some (\<lambda>name. Inr example_collection),
      create_collection_m = None,
      get_collection_m = None,
      persist_m = None\<rparr>"

definition example_chromadb :: "(string list, int) client chromadb" where
  "example_chromadb =
     \<lparr>import_chromadb = None, mkdir = None,
      persistent_client = Inr example_client,
      http_client = Inl OtherError,
      settings_client = Inl OtherError,
      path_client = Inl OtherError\<rparr>"

definition example_document :: row where
  "example_document =
     map_of [(''video_id'', VStr ''abc''), (''transcript'', VNaN),
             (''combined_text'', VStr ''hello''), (''embedding'', VStr ''[1, 2]'')]"

text \<open>
  Two installations of \<^verbatim>\<open>chromadb\<close>: one where the persist directory cannot be made
  (a file of that name exists) although every construction would succeed, and an old
  one where only the last two constructions succeed. A frame without the column
  \<^verbatim>\<open>combined_text\<close>, and a collection whose \<^verbatim>\<open>add\<close> rejects both calling conventions.
\<close>

definition example_blocked_dir :: "unit chromadb" where
  "example_blocked_dir =
     \<lparr>import_chromadb = None, mkdir = Some OSError,
      persistent_client = Inr (), http_client = Inr (),
      settings_client = Inr (), path_client = Inr ()\<rparr>"

definition example_old_chromadb :: "nat chromadb" where
  "example_old_chromadb =
     \<lparr>import_chromadb = None, mkdir = None,
      persistent_client = Inl AttributeError, http_client = Inl OtherError,
      settings_client = Inr 3, path_client = Inr 4\<rparr>"

definition example_table :: table where
  "example_table = \<lparr>columns = [''title'', ''transcript''], rows = [map_of [(''title'', VStr ''t'')]]\<rparr>"

definition example_legacy_collection :: "(string list, int) collection" where
  "example_legacy_collection =
     \<lparr>add_keyword = (\<lambda>b s. (Some TypeError, s)),
      add_positional = (\<lambda>b s. (Some ValueError, s)),
      upsert = Some (\<lambda>b s. (None, s @ fst b))\<rparr>"

text \<open>
  An installation whose first construction is interrupted, a frame where the base ID of
  a skipped row was inserted before, a collection that keeps the records it is given,
  one whose positional \<^verbatim>\<open>add\<close> is interrupted, and 300 records.
\<close>

definition example_interrupted :: "unit chromadb" where
  "example_interrupted =
     \<lparr>import_chromadb = None, mkdir = None,
      persistent_client = Inl KeyboardInterrupt, http_client = Inr (),
      settings_client = Inr (), path_client = Inr ()\<rparr>"

definition example_reused :: "row list" where
  "example_reused =
     [map_of [(''video_id'', VStr ''a''), (''embedding'', VStr ''[1, 2]'')],
      map_of [(''video_id'', VStr ''a''), (''embedding'', VNaN)],
      map_of [(''video_id'', VStr ''a''), (''embedding'', VStr ''[1, 2]'')]]"

definition example_recorder ::
  "((string \<times> string \<times> metadata \<times> int list) list, int) collection" where
  "example_recorder =
     \<lparr>add_keyword = (\<lambda>b s. (None, s @ records b)),
      add_positional = (\<lambda>b s. (None, s @ records b)),
      upsert = None\<rparr>"

definition example_recorder_client ::
  "((string \<times> string \<times> metadata \<times> int list) list, int) client" where
  "example_recorder_client =
     \<lparr>get_or_create_collection_m = Some (\<lambda>name. Inr example_recorder),
      create_collection_m = None,
      get_collection_m = None,
      persist_m = None\<rparr>"

definition example_recorder_chromadb ::
  "((string \<times> string \<times> metadata \<times> int list) list, int) client chromadb" where
  "example_recorder_chromadb =
     \<lparr>import_chromadb = None, mkdir = None,
      persistent_client = Inr example_recorder_client,
      http_client = Inl OtherError,
      settings_client = Inl OtherError,
      path_client = Inl OtherError\<rparr>"

definition example_interrupted_collection :: "(string list, int) collection" where
  "example_interrupted_collection =
     \<lparr>add_keyword = (\<lambda>b s. (Some TypeError, s)),
      add_positional = (\<lambda>b s. (Some KeyboardInterrupt, s)),
      upsert = Some (\<lambda>b s. (None, s @ fst b))\<rparr>"

definition example_ids :: "string list" where
  "example_ids = replicate 300 ''x''"

definition example_metadata :: metadata where
  "example_metadata = \<lparr>title = [], channel_title = [], view_count = None, duration_seconds = None\<rparr>"

section \<open>Identifier resolution: properties\<close>

lemma str_nat_nonempty: "str_nat n \<noteq> []"
  by (subst str_nat.simps) simp

text \<open>
  C3. For every record and index the resolved ID is a non-empty string, and it is
  chosen by precedence: the stripped \<^verbatim>\<open>video_id\<close> field when that field is usable;
  otherwise the stripped \<^verbatim>\<open>id\<close> field when usable; otherwise the ID read after
  \<^verbatim>\<open>v=\<close> in the URL when there is one; otherwise \<^verbatim>\<open>vid_<index>\<close>. The result is a
  function of the record and the index alone, so resolving twice gives the same ID.
\<close>

theorem get_valid_video_id_precedence:
  "get_valid_video_id r idx \<noteq> [] \<and>
   (id_usable (row_get r ''video_id'') \<longrightarrow>
      get_valid_video_id r idx = strip (py_str (row_get r ''video_id''))) \<and>
   (\<not> id_usable (row_get r ''video_id'') \<and> id_usable (row_get r ''id'') \<longrightarrow>
      get_valid_video_id r idx = strip (py_str (row_get r ''id''))) \<and>
   (\<not> id_usable (row_get r ''video_id'') \<and> \<not> id_usable (row_get r ''id'') \<longrightarrow>
      (case url_video_id (row_get r ''url'') of
         Some v \<Rightarrow> get_valid_video_id r idx = v
       | None \<Rightarrow> get_valid_video_id r idx = ''vid_'' @ str_nat idx))"
  by (auto simp: get_valid_video_id_def id_usable_def url_video_id_def str_nat_nonempty
      split: option.splits list.splits if_splits)

theorem get_valid_video_id_precedence_witness:
  "get_valid_video_id
     (map_of [(''video_id'', VStr '' abc ''), (''id'', VInt 7),
              (''url'', VStr ''https://y.com/watch?v=q1&t=3'')]) 5
     = ''abc'' \<and>
   get_valid_video_id
     (map_of [(''video_id'', VNaN), (''id'', VInt 7),
              (''url'', VStr ''https://y.com/watch?v=q1&t=3'')]) 5
     = ''7'' \<and>
   get_valid_video_id
     (map_of [(''video_id'', VNaN), (''id'', VStr ''nan''),
              (''url'', VStr ''https://y.com/watch?v=q1&t=3'')]) 5
     = ''q1'' \<and>
   get_valid_video_id
     (map_of [(''video_id'', VNaN), (''url'', VStr ''https://y.com/watch?v=&t=3'')]) 5
     = ''vid_5''"
  using
    get_valid_video_id_precedence
      [of "map_of [(''video_id'', VStr '' abc ''), (''id'', VInt 7),
                   (''url'', VStr ''https://y.com/watch?v=q1&t=3'')]" 5]
    get_valid_video_id_precedence
      [of "map_of [(''video_id'', VNaN), (''id'', VInt 7),
                   (''url'', VStr ''https://y.com/watch?v=q1&t=3'')]" 5]
    get_valid_video_id_precedence
      [of "map_of [(''video_id'', VNaN), (''id'', VStr ''nan''),
                   (''url'', VStr ''https://y.com/watch?v=q1&t=3'')]" 5]
    get_valid_video_id_precedence
      [of "map_of [(''video_id'', VNaN), (''url'', VStr ''https://y.com/watch?v=&t=3'')]" 5]
  by code_simp

section \<open>The row loop: what it accumulates\<close>

lemma unique_from_fresh: "unique_from used b vid c |\<notin>| used"
proof (induction used b vid c rule: unique_from.induct)
  case (1 used b vid c)
  then show ?case by (subst unique_from.simps) simp
qed

lemma unique_id_fresh: "unique_id used b |\<notin>| used"
  by (simp add: unique_id_def unique_from_fresh)

lemma unique_id_unused: "b |\<notin>| used \<Longrightarrow> unique_id used b = b"
  by (simp add: unique_id_def unique_from.simps)

lemma unique_from_suffixed:
  "vid |\<in>| used \<Longrightarrow>
   \<exists>k\<ge>c. unique_from used b vid c = suffixed b k \<and> (\<forall>j. c \<le> j \<and> j < k \<longrightarrow> suffixed b j |\<in>| used)"
proof (induction used b vid c rule: unique_from.induct)
  case (1 used b vid c)
  show ?case
  proof (cases "suffixed b c |\<in>| used")
    case True
    from "1.IH" [OF "1.prems" True] obtain k where k: "Suc c \<le> k"
      "unique_from used b (suffixed b c) (Suc c) = suffixed b k"
      "\<forall>j. Suc c \<le> j \<and> j < k \<longrightarrow> suffixed b j |\<in>| used"
      by blast
    have "\<forall>j. c \<le> j \<and> j < k \<longrightarrow> suffixed b j |\<in>| used"
    proof (intro allI impI)
      fix j assume "c \<le> j \<and> j < k"
      then show "suffixed b j |\<in>| used"
        using True k(3) by (cases "j = c") auto
    qed
    moreover have "unique_from used b vid c = suffixed b k"
      using "1.prems" k(2) by (subst unique_from.simps) simp
    ultimately show ?thesis using k(1) by (intro exI [of _ k]) simp
  next
    case False
    have "unique_from used b vid c = suffixed b c"
      using "1.prems" False by (simp add: unique_from.simps)
    then show ?thesis by (intro exI [of _ c]) auto
  qed
qed

lemma unique_id_used:
  assumes "b |\<in>| used"
  shows "\<exists>k\<ge>1. unique_id used b = suffixed b k \<and> (\<forall>j. 1 \<le> j \<and> j < k \<longrightarrow> suffixed b j |\<in>| used)"
  using unique_from_suffixed [OF assms, of 1 b] by (simp add: unique_id_def)

lemma process_row_used:
  "used_ids (process_row L idx r a) = finsert (unique_id (used_ids a) (get_valid_video_id r idx)) (used_ids a)"
  by (simp add: process_row_def Let_def split: option.splits)

lemma process_row_ids:
  "ids (process_row L idx r a) =
     (if parsable L r then ids a @ [unique_id (used_ids a) (get_valid_video_id r idx)] else ids a)"
  by (simp add: process_row_def Let_def parsable_def split: option.splits)

lemma process_row_documents:
  "documents (process_row L idx r a) =
     (if parsable L r then documents a @ [safe_document r] else documents a)"
  by (simp add: process_row_def Let_def parsable_def split: option.splits)

lemma process_row_metadatas:
  "metadatas (process_row L idx r a) =
     (if parsable L r then metadatas a @ [row_metadata L r] else metadatas a)"
  by (simp add: process_row_def Let_def parsable_def split: option.splits)

lemma process_row_embeddings:
  "embeddings (process_row L idx r a) =
     (if parsable L r then embeddings a @ [parsed L r] else embeddings a)"
  by (auto simp add: process_row_def Let_def parsable_def parsed_def split: option.splits)

lemma process_row_printed:
  "printed (process_row L idx r a) =
     (if parsable L r then printed a
      else printed a @ [Skipping idx (unique_id (used_ids a) (get_valid_video_id r idx))])"
  by (simp add: process_row_def Let_def parsable_def split: option.splits)

lemma iterrows_from_ids:
  "ids (iterrows_from L idx rs a) =
     ids a @ map fst (filter (\<lambda>(v, r). parsable L r) (zip (row_ids_from (used_ids a) idx rs) rs))"
proof (induction rs arbitrary: idx a)
  case Nil
  then show ?case by simp
next
  case (Cons r rs)
  show ?case
    by (simp add: Cons.IH process_row_ids process_row_used Let_def)
qed

lemma iterrows_from_documents:
  "documents (iterrows_from L idx rs a) = documents a @ map safe_document (filter (parsable L) rs)"
  by (induction rs arbitrary: idx a) (simp_all add: process_row_documents)

lemma iterrows_from_metadatas:
  "metadatas (iterrows_from L idx rs a) = metadatas a @ map (row_metadata L) (filter (parsable L) rs)"
  by (induction rs arbitrary: idx a) (simp_all add: process_row_metadatas)

lemma iterrows_from_embeddings:
  "embeddings (iterrows_from L idx rs a) = embeddings a @ map (parsed L) (filter (parsable L) rs)"
  by (induction rs arbitrary: idx a) (simp_all add: process_row_embeddings)

lemma iterrows_from_printed:
  "printed (iterrows_from L idx rs a) =
     printed a @ map (\<lambda>(i, v, r). Skipping i v)
       (filter (\<lambda>(i, v, r). \<not> parsable L r)
          (zip [idx ..< idx + length rs] (zip (row_ids_from (used_ids a) idx rs) rs)))"
proof (induction rs arbitrary: idx a)
  case Nil
  then show ?case by simp
next
  case (Cons r rs)
  have "[idx ..< idx + length (r # rs)] = idx # [Suc idx ..< Suc idx + length rs]"
    by (subst upt_rec) simp
  then show ?case
    by (simp add: Cons.IH process_row_printed process_row_used Let_def del: upt_Suc)
qed

lemma row_ids_from_length: "length (row_ids_from used idx rs) = length rs"
  by (induction rs arbitrary: used idx) (simp_all add: Let_def)

lemma row_ids_from_fresh: "v \<in> set (row_ids_from used idx rs) \<Longrightarrow> v |\<notin>| used"
proof (induction rs arbitrary: used idx)
  case Nil
  then show ?case by simp
next
  case (Cons r rs)
  then show ?case
    by (auto simp: Let_def unique_id_fresh)
qed

lemma row_ids_from_distinct: "distinct (row_ids_from used idx rs)"
proof (induction rs arbitrary: used idx)
  case Nil
  then show ?case by simp
next
  case (Cons r rs)
  then show ?case
    by (auto simp: Let_def dest: row_ids_from_fresh)
qed

lemma iterrows_ids:
  "ids (iterrows L df) = map fst (filter (\<lambda>(v, r). parsable L r) (zip (row_ids df) df))"
  by (simp add: iterrows_def row_ids_def iterrows_from_ids empty_acc_def)

lemma iterrows_documents: "documents (iterrows L df) = map safe_document (filter (parsable L) df)"
  by (simp add: iterrows_def iterrows_from_documents empty_acc_def)

lemma iterrows_metadatas: "metadatas (iterrows L df) = map (row_metadata L) (filter (parsable L) df)"
  by (simp add: iterrows_def iterrows_from_metadatas empty_acc_def)

lemma iterrows_embeddings: "embeddings (iterrows L df) = map (parsed L) (filter (parsable L) df)"
  by (simp add: iterrows_def iterrows_from_embeddings empty_acc_def)

lemma iterrows_printed:
  "printed (iterrows L df) =
     map (\<lambda>(i, v, r). Skipping i v)
       (filter (\<lambda>(i, v, r). \<not> parsable L r) (zip [0 ..< length df] (zip (row_ids df) df)))"
  by (simp add: iterrows_def row_ids_def iterrows_from_printed empty_acc_def)

lemma row_ids_length: "length (row_ids df) = length df"
  by (simp add: row_ids_def row_ids_from_length)

lemma row_ids_distinct: "distinct (row_ids df)"
  by (simp add: row_ids_def row_ids_from_distinct)

lemma filter_zip_snd_length:
  "length xs = length ys \<Longrightarrow>
   length (filter (\<lambda>(v, r). P r) (zip xs ys)) = length (filter P ys)"
  by (induction xs ys rule: list_induct2) auto

lemma iterrows_ids_length: "length (ids (iterrows L df)) = length (filter (parsable L) df)"
  by (simp add: iterrows_ids filter_zip_snd_length row_ids_length)

lemma iterrows_ids_distinct: "distinct (ids (iterrows L df))"
proof -
  have "distinct (map fst (zip (row_ids df) df))"
    by (simp add: map_fst_zip row_ids_length row_ids_distinct)
  then show ?thesis
    unfolding iterrows_ids by (rule distinct_map_filter)
qed

lemma iterrows_ids_member:
  assumes "i < length df"
  shows "row_ids df ! i \<in> set (ids (iterrows L df)) \<longleftrightarrow> parsable L (df ! i)"
proof
  assume "row_ids df ! i \<in> set (ids (iterrows L df))"
  then obtain v r where vr: "(v, r) \<in> set (zip (row_ids df) df)" "parsable L r" "v = row_ids df ! i"
    by (auto simp: iterrows_ids)
  then obtain k where k: "k < length df" "row_ids df ! k = v" "df ! k = r"
    by (auto simp: set_zip row_ids_length)
  with vr(3) assms have "k = i"
    using row_ids_distinct [of df] by (simp add: nth_eq_iff_index_eq row_ids_length)
  with k vr(2) show "parsable L (df ! i)" by simp
next
  assume "parsable L (df ! i)"
  moreover have "(row_ids df ! i, df ! i) \<in> set (zip (row_ids df) df)"
    using assms by (auto simp: set_zip row_ids_length)
  ultimately show "row_ids df ! i \<in> set (ids (iterrows L df))"
    by (force simp: iterrows_ids)
qed

lemma printed_member:
  assumes "i < length df" "\<not> parsable L (df ! i)"
  shows "Skipping i (row_ids df ! i) \<in> set (printed (iterrows L df))"
proof -
  have "(i, row_ids df ! i, df ! i) \<in> set (zip [0 ..< length df] (zip (row_ids df) df))"
    using assms(1) by (auto simp: set_zip row_ids_length intro!: exI [of _ i])
  with assms(2) show ?thesis
    by (force simp: iterrows_printed)
qed

lemma count_list_distinct: "distinct xs \<Longrightarrow> x \<in> set xs \<Longrightarrow> count_list xs x = 1"
  by (induction xs) auto

lemma ensure_embedding_list_missing:
  "isna x \<or> x = VStr [] \<Longrightarrow> ensure_embedding_list L x = None"
  by (auto simp: ensure_embedding_list_def)

lemma ensure_embedding_list_unparsable:
  "Option.bind (literal_eval L s) (py_list L) = None \<Longrightarrow>
   Option.bind (json_loads L s) (py_list L) = None \<Longrightarrow>
   ensure_embedding_list L (VStr s) = None"
  by (simp add: ensure_embedding_list_def)

lemma insert_batch_succeeds:
  assumes "\<forall>b s. fst (add_keyword collection b s) = None"
  shows "fst (insert_batch collection i b w) = None"
proof -
  obtain s' where "add_keyword collection b (store w) = (None, s')"
    using assms by (metis eq_fst_iff)
  then show ?thesis
    by (simp add: insert_batch_def invoke_def)
qed

lemma insert_batches_succeed:
  assumes "\<forall>b s. fst (add_keyword collection b s) = None"
  shows "fst (insert_batches collection all n starts w) = None"
proof (induction starts arbitrary: w)
  case Nil
  then show ?case by simp
next
  case (Cons i starts)
  obtain w' where "insert_batch collection i (batch_at all n i) w = (None, w')"
    using insert_batch_succeeds [OF assms, of i "batch_at all n i" w] by (metis eq_fst_iff)
  then show ?case using Cons.IH by simp
qed

section \<open>Unique identifiers within a run\<close>

lemma row_ids_from_nth:
  "j < length rs \<Longrightarrow>
   row_ids_from used idx rs ! j =
     unique_id (used |\<union>| fset_of_list (take j (row_ids_from used idx rs)))
       (get_valid_video_id (rs ! j) (idx + j))"
proof (induction rs arbitrary: used idx j)
  case Nil
  then show ?case by simp
next
  case (Cons r rs)
  show ?case
  proof (cases j)
    case 0
    then show ?thesis by (simp add: Let_def)
  next
    case (Suc j')
    with Cons.prems have "j' < length rs" by simp
    from Cons.IH [OF this] Suc show ?thesis
      by (simp add: Let_def)
  qed
qed

lemma row_ids_nth:
  "j < length df \<Longrightarrow>
   row_ids df ! j =
     unique_id (fset_of_list (take j (row_ids df))) (get_valid_video_id (df ! j) j)"
  using row_ids_from_nth [of j df "{||}" 0] by (simp add: row_ids_def)

lemma base_consumed:
  assumes "i < length df"
  shows "get_valid_video_id (df ! i) i \<in> set (take (Suc i) (row_ids df))"
proof (cases "get_valid_video_id (df ! i) i \<in> set (take i (row_ids df))")
  case True
  then show ?thesis
    using set_take_subset_set_take [of i "Suc i" "row_ids df"] by auto
next
  case False
  then have "row_ids df ! i = get_valid_video_id (df ! i) i"
    using row_ids_nth [OF assms] by (simp add: unique_id_unused fset_of_list_elem)
  then show ?thesis
    using assms by (simp add: take_Suc_conv_app_nth row_ids_length)
qed

lemma later_duplicate_suffixed:
  assumes "i < j" "j < length df"
    "get_valid_video_id (df ! i) i = get_valid_video_id (df ! j) j"
  shows "\<exists>c\<ge>1. row_ids df ! j = suffixed (get_valid_video_id (df ! j) j) c \<and>
           (\<forall>k. 1 \<le> k \<and> k < c \<longrightarrow>
              suffixed (get_valid_video_id (df ! j) j) k \<in> set (take j (row_ids df)))"
proof -
  have "i < length df" using assms(1,2) by simp
  from base_consumed [OF this]
  have "get_valid_video_id (df ! i) i \<in> set (take (Suc i) (row_ids df))" .
  moreover have "set (take (Suc i) (row_ids df)) \<subseteq> set (take j (row_ids df))"
    using assms(1) by (simp add: set_take_subset_set_take)
  ultimately have "get_valid_video_id (df ! j) j |\<in>| fset_of_list (take j (row_ids df))"
    using assms(3) by (auto simp: fset_of_list_elem)
  from unique_id_used [OF this] show ?thesis
    using row_ids_nth [OF assms(2)] by (simp add: fset_of_list_elem)
qed

lemma suffixed_neq: "suffixed b c \<noteq> b"
  by (simp add: suffixed_def)

text \<open>
  C2. The unique IDs of a run are pairwise different, and so are the IDs inserted.
  When a later row resolves to the same base ID as an earlier one, its unique ID is
  the base ID with \<^verbatim>\<open>_<c>\<close> appended, where \<open>c\<close> is the first counter from 1 whose
  suffixed ID is not yet used.
\<close>

theorem duplicate_ids_suffixed:
  "distinct (row_ids df) \<and> distinct (ids (iterrows L df)) \<and>
   (\<forall>i j. i < j \<and> j < length df \<and>
      get_valid_video_id (df ! i) i = get_valid_video_id (df ! j) j \<longrightarrow>
      (\<exists>c\<ge>1. row_ids df ! j = suffixed (get_valid_video_id (df ! j) j) c \<and>
         (\<forall>k. 1 \<le> k \<and> k < c \<longrightarrow>
            suffixed (get_valid_video_id (df ! j) j) k \<in> set (take j (row_ids df)))))"
proof (intro conjI allI impI)
  show "distinct (row_ids df)" by (rule row_ids_distinct)
  show "distinct (ids (iterrows L df))" by (rule iterrows_ids_distinct)
next
  fix i j
  assume "i < j \<and> j < length df \<and>
      get_valid_video_id (df ! i) i = get_valid_video_id (df ! j) j"
  then show "\<exists>c\<ge>1. row_ids df ! j = suffixed (get_valid_video_id (df ! j) j) c \<and>
         (\<forall>k. 1 \<le> k \<and> k < c \<longrightarrow>
            suffixed (get_valid_video_id (df ! j) j) k \<in> set (take j (row_ids df)))"
    using later_duplicate_suffixed [of i j df] by simp
qed

theorem duplicate_ids_suffixed_witness:
  "(0::nat) < 3 \<and> 3 < length example_duplicates \<and>
   get_valid_video_id (example_duplicates ! 0) 0 = ''vid_3'' \<and>
   get_valid_video_id (example_duplicates ! 3) 3 = ''vid_3'' \<and>
   (\<exists>c\<ge>1. row_ids example_duplicates ! 3 = suffixed ''vid_3'' c \<and>
      (\<forall>k. 1 \<le> k \<and> k < c \<longrightarrow> suffixed ''vid_3'' k \<in> set (take 3 (row_ids example_duplicates)))) \<and>
   row_ids example_duplicates = [''vid_3'', ''vid_1'', ''vid_2'', ''vid_3_1''] \<and>
   ids (iterrows example_lib example_duplicates) = [''vid_3'', ''vid_1'', ''vid_2'', ''vid_3_1''] \<and>
   distinct (ids (iterrows example_lib example_duplicates))"
proof -
  have h: "(0::nat) < 3 \<and> 3 < length example_duplicates \<and>
      get_valid_video_id (example_duplicates ! 0) 0 = ''vid_3'' \<and>
      get_valid_video_id (example_duplicates ! 3) 3 = ''vid_3''"
    by code_simp
  have v: "row_ids example_duplicates = [''vid_3'', ''vid_1'', ''vid_2'', ''vid_3_1''] \<and>
      ids (iterrows example_lib example_duplicates) = [''vid_3'', ''vid_1'', ''vid_2'', ''vid_3_1'']"
    by code_simp
  have t: "distinct (ids (iterrows example_lib example_duplicates)) \<and>
    (\<forall>i j. i < j \<and> j < length example_duplicates \<and>
      get_valid_video_id (example_duplicates ! i) i = get_valid_video_id (example_duplicates ! j) j \<longrightarrow>
      (\<exists>c\<ge>1. row_ids example_duplicates ! j = suffixed (get_valid_video_id (example_duplicates ! j) j) c \<and>
         (\<forall>k. 1 \<le> k \<and> k < c \<longrightarrow>
            suffixed (get_valid_video_id (example_duplicates ! j) j) k
              \<in> set (take j (row_ids example_duplicates)))))"
    using duplicate_ids_suffixed [of example_duplicates example_lib] by blast
  from t h have "\<exists>c\<ge>1. row_ids example_duplicates ! 3 = suffixed ''vid_3'' c \<and>
      (\<forall>k. 1 \<le> k \<and> k < c \<longrightarrow> suffixed ''vid_3'' k \<in> set (take 3 (row_ids example_duplicates)))"
    by (metis (no_types, lifting))
  with h v t show ?thesis by blast
qed

section \<open>The four lists and the document text\<close>

lemma process_row_lengths_match:
  "lengths_match a \<Longrightarrow> lengths_match (process_row L idx r a)"
  by (simp add: lengths_match_def process_row_ids process_row_documents process_row_metadatas
      process_row_embeddings)

text \<open>
  C10. After the loop the four lists have the same length, so the condition asserted at
  line 218 holds on every frame and the branch of \<open>vector_db_main\<close> that raises
  AssertionError is never taken. Each pass of the loop keeps the lengths equal, and a
  row that is accepted adds one element to each list.
\<close>

theorem lengths_always_match:
  "lengths_match (iterrows L df) \<and>
   (lengths_match a \<longrightarrow> lengths_match (process_row L idx r a)) \<and>
   (parsable L r \<longrightarrow>
      length (ids (process_row L idx r a)) = Suc (length (ids a)) \<and>
      length (documents (process_row L idx r a)) = Suc (length (documents a)) \<and>
      length (metadatas (process_row L idx r a)) = Suc (length (metadatas a)) \<and>
      length (embeddings (process_row L idx r a)) = Suc (length (embeddings a)))"
proof (intro conjI impI)
  show "lengths_match (iterrows L df)"
    by (simp add: lengths_match_def iterrows_documents iterrows_metadatas iterrows_embeddings
        iterrows_ids_length)
next
  assume "lengths_match a"
  then show "lengths_match (process_row L idx r a)" by (rule process_row_lengths_match)
next
  assume p: "parsable L r"
  then show "length (ids (process_row L idx r a)) = Suc (length (ids a))"
    by (simp add: process_row_ids)
  from p show "length (documents (process_row L idx r a)) = Suc (length (documents a))"
    by (simp add: process_row_documents)
  from p show "length (metadatas (process_row L idx r a)) = Suc (length (metadatas a))"
    by (simp add: process_row_metadatas)
  from p show "length (embeddings (process_row L idx r a)) = Suc (length (embeddings a))"
    by (simp add: process_row_embeddings)
qed

theorem lengths_always_match_witness:
  "lengths_match (iterrows example_lib example_skipped) \<and>
   lengths_match (empty_acc :: int acc) \<and>
   parsable example_lib (example_skipped ! 1) \<and>
   lengths_match (process_row example_lib 1 (example_skipped ! 1) empty_acc) \<and>
   length (ids (process_row example_lib 1 (example_skipped ! 1) empty_acc)) = 1 \<and>
   length (embeddings (process_row example_lib 1 (example_skipped ! 1) empty_acc)) = 1"
proof -
  have h: "lengths_match (empty_acc :: int acc) \<and> parsable example_lib (example_skipped ! 1)"
    by code_simp
  note t = lengths_always_match
    [of example_lib example_skipped empty_acc 1 "example_skipped ! 1"]
  from t h have "lengths_match (process_row example_lib 1 (example_skipped ! 1) empty_acc) \<and>
    length (ids (process_row example_lib 1 (example_skipped ! 1) empty_acc)) = Suc (length (ids (empty_acc :: int acc))) \<and>
    length (embeddings (process_row example_lib 1 (example_skipped ! 1) empty_acc))
      = Suc (length (embeddings (empty_acc :: int acc)))"
    by blast
  then have "lengths_match (process_row example_lib 1 (example_skipped ! 1) empty_acc) \<and>
    length (ids (process_row example_lib 1 (example_skipped ! 1) empty_acc)) = 1 \<and>
    length (embeddings (process_row example_lib 1 (example_skipped ! 1) empty_acc)) = 1"
    by (simp add: empty_acc_def)
  with t h show ?thesis by blast
qed

text \<open>
  C4. The document text of a row is the empty string when the three candidate fields
  are missing; otherwise it is \<^verbatim>\<open>str\<close> of the first usable candidate in the order
  \<^verbatim>\<open>transcript_clean\<close>, \<^verbatim>\<open>combined_text\<close>, \<^verbatim>\<open>transcript\<close>, and never \<^verbatim>\<open>str\<close> of a
  missing value. The documents inserted are these texts of the parsable rows.
\<close>

theorem safe_document_text:
  "(isna (field_or_none r ''transcript_clean'') \<and> isna (field_or_none r ''combined_text'') \<and>
    isna (field_or_none r ''transcript'') \<longrightarrow> safe_document r = []) \<and>
   (truthy (field_or_none r ''transcript_clean'') \<and> \<not> isna (field_or_none r ''transcript_clean'') \<longrightarrow>
      safe_document r = py_str (field_or_none r ''transcript_clean'')) \<and>
   (\<not> (truthy (field_or_none r ''transcript_clean'') \<and> \<not> isna (field_or_none r ''transcript_clean'')) \<and>
    truthy (field_or_none r ''combined_text'') \<and> \<not> isna (field_or_none r ''combined_text'') \<longrightarrow>
      safe_document r = py_str (field_or_none r ''combined_text'')) \<and>
   (\<not> (truthy (field_or_none r ''transcript_clean'') \<and> \<not> isna (field_or_none r ''transcript_clean'')) \<and>
    \<not> (truthy (field_or_none r ''combined_text'') \<and> \<not> isna (field_or_none r ''combined_text'')) \<longrightarrow>
      safe_document r = (if isna (field_or_none r ''transcript'') then []
                         else py_str (field_or_none r ''transcript''))) \<and>
   documents (iterrows L df) = map safe_document (filter (parsable L) df)"
proof -
  have "isna v \<or> v = VNone \<longleftrightarrow> isna v" for v
    by (cases v) simp_all
  then show ?thesis
    by (auto simp: safe_document_def raw_document_def Let_def iterrows_documents)
qed

theorem safe_document_text_witness:
  "\<not> (truthy (field_or_none example_document ''transcript_clean'') \<and>
       \<not> isna (field_or_none example_document ''transcript_clean'')) \<and>
   truthy (field_or_none example_document ''combined_text'') \<and>
   \<not> isna (field_or_none example_document ''combined_text'') \<and>
   safe_document example_document = ''hello'' \<and>
   get_valid_video_id example_document 0 = ''abc'' \<and>
   ids (iterrows example_lib [example_document]) = [''abc''] \<and>
   documents (iterrows example_lib [example_document]) = [''hello''] \<and>
   safe_document (map_of [(''transcript'', VNaN), (''combined_text'', VNaN)]) = []"
proof -
  have h: "\<not> (truthy (field_or_none example_document ''transcript_clean'') \<and>
       \<not> isna (field_or_none example_document ''transcript_clean'')) \<and>
     truthy (field_or_none example_document ''combined_text'') \<and>
     \<not> isna (field_or_none example_document ''combined_text'') \<and>
     py_str (field_or_none example_document ''combined_text'') = ''hello'' \<and>
     get_valid_video_id example_document 0 = ''abc'' \<and>
     ids (iterrows example_lib [example_document]) = [''abc''] \<and>
     documents (iterrows example_lib [example_document]) = [''hello''] \<and>
     safe_document (map_of [(''transcript'', VNaN), (''combined_text'', VNaN)]) = []"
    by code_simp
  from h safe_document_text [of example_document example_lib "[example_document]"]
  have "safe_document example_document = ''hello''"
    by metis
  with h show ?thesis by blast
qed

section \<open>The client, the batches and the missing input\<close>

text \<open>
  C8. When the input file is missing, the embedder raises FileNotFoundError having made
  no call at all; when the file is read and has no column \<^verbatim>\<open>combined_text\<close>, it raises
  ValueError before the model is called or anything is written. When its input file is
  missing, the loader raises FileNotFoundError having made no call, with the store
  unchanged.
\<close>

theorem missing_input_is_fatal:
  "(\<not> file_exists \<longrightarrow>
      embed_main file_exists read_table embed_texts to_csv = (Inl FileNotFoundError, [])) \<and>
   (file_exists \<and> read_table = Inr tb \<and> ''combined_text'' \<notin> set (columns tb) \<longrightarrow>
      embed_main file_exists read_table embed_texts to_csv = (Inl ValueError, [ReadCsv])) \<and>
   (\<not> file_exists \<longrightarrow>
      vector_db_main file_exists read_csv L db s0
        = (Some FileNotFoundError, \<lparr>store = s0, calls = []\<rparr>))"
  by (simp add: embed_main_def vector_db_main_def)

theorem missing_input_is_fatal_witness:
  "''combined_text'' \<notin> set (columns example_table) \<and>
   embed_main False (Inr example_table) (\<lambda>texts. Inr (map (\<lambda>t. [0::int]) texts)) (\<lambda>tb vs. None)
     = (Inl FileNotFoundError, []) \<and>
   embed_main True (Inr example_table) (\<lambda>texts. Inr (map (\<lambda>t. [0::int]) texts)) (\<lambda>tb vs. None)
     = (Inl ValueError, [ReadCsv]) \<and>
   vector_db_main False (Inr example_skipped) example_lib example_chromadb [''kept'']
     = (Some FileNotFoundError, \<lparr>store = [''kept''], calls = []\<rparr>)"
proof -
  have h: "''combined_text'' \<notin> set (columns example_table)"
    by (simp add: example_table_def)
  note t1 = missing_input_is_fatal
    [of False "Inr example_table" "\<lambda>texts. Inr (map (\<lambda>t. [0::int]) texts)" "\<lambda>tb vs. None"
        example_table "Inr example_skipped" example_lib example_chromadb "[''kept'']"]
  note t2 = missing_input_is_fatal
    [of True "Inr example_table" "\<lambda>texts. Inr (map (\<lambda>t. [0::int]) texts)" "\<lambda>tb vs. None"
        example_table "Inr example_skipped" example_lib example_chromadb "[''kept'']"]
  from t1 have "embed_main False (Inr example_table) (\<lambda>texts. Inr (map (\<lambda>t. [0::int]) texts)) (\<lambda>tb vs. None)
     = (Inl FileNotFoundError, []) \<and>
     vector_db_main False (Inr example_skipped) example_lib example_chromadb [''kept'']
     = (Some FileNotFoundError, \<lparr>store = [''kept''], calls = []\<rparr>)"
    by blast
  moreover from t2 h
  have "embed_main True (Inr example_table) (\<lambda>texts. Inr (map (\<lambda>t. [0::int]) texts)) (\<lambda>tb vs. None)
     = (Inl ValueError, [ReadCsv])"
    by blast
  ultimately show ?thesis using h by blast
qed

lemma py_range_pos: "i \<in> set (py_range j n step) \<Longrightarrow> i < n \<and> j \<le> i"
proof (induction j n step rule: py_range.induct)
  case (1 j n step)
  show ?case
  proof (cases "j < n \<and> 0 < step")
    case True
    with "1.prems" have "i = j \<or> i \<in> set (py_range (j + step) n step)"
      by (subst (asm) py_range.simps) simp
    with True "1.IH" show ?thesis by auto
  next
    case False
    with "1.prems" show ?thesis by (subst (asm) py_range.simps) simp
  qed
qed

lemma concat_slices:
  "0 < step \<Longrightarrow>
   concat (map (\<lambda>i. slice xs i (min (i + step) (length xs))) (py_range j (length xs) step))
     = drop j xs"
proof (induction j "length xs" step rule: py_range.induct)
  case (1 j step)
  show ?case
  proof (cases "j < length xs")
    case True
    have "slice xs j (min (j + step) (length xs)) = take step (drop j xs)"
      by (simp add: slice_def min_def)
    moreover have "take step (drop j xs) @ drop (j + step) xs = drop j xs"
      by (metis add.commute append_take_drop_id drop_drop)
    ultimately show ?thesis
      using True "1.prems" "1.hyps" by (subst py_range.simps) simp
  next
    case False
    then show ?thesis by (subst py_range.simps) simp
  qed
qed

lemma py_range_full_before_last:
  "Suc k < length (py_range j n step) \<Longrightarrow> py_range j n step ! k + step < n"
proof (induction j n step arbitrary: k rule: py_range.induct)
  case (1 j n step)
  show ?case
  proof (cases "j < n \<and> 0 < step")
    case True
    then have eq: "py_range j n step = j # py_range (j + step) n step"
      by (subst py_range.simps) simp
    show ?thesis
    proof (cases k)
      case 0
      with "1.prems" eq have "py_range (j + step) n step \<noteq> []" by auto
      then have "j + step < n" by (subst (asm) py_range.simps) (simp split: if_splits)
      with 0 eq show ?thesis by simp
    next
      case (Suc k')
      with "1.prems" eq have "Suc k' < length (py_range (j + step) n step)" by simp
      from "1.IH" [OF True this] Suc eq show ?thesis by simp
    qed
  next
    case False
    with "1.prems" show ?thesis by (subst (asm) py_range.simps) simp
  qed
qed

lemma slice_length: "length (slice xs i (min (i + step) (length xs))) = min step (length xs - i)"
  by (auto simp: slice_def min_def)


section \<open>The client\<close>

text \<open>
  C7, as the claim states it, fails. Line 41 creates the persist directory before any
  strategy is tried and outside every \<^verbatim>\<open>try\<close>: where that raises, the function raises
  although every construction would have succeeded. And a construction that is
  interrupted ends the function although the next one would have succeeded.
\<close>

theorem create_chroma_client_blocked_directory:
  "fst (create_chroma_client example_blocked_dir) = Inl OSError \<and>
   persistent_client example_blocked_dir = Inr () \<and>
   snd (create_chroma_client example_blocked_dir) = [ImportChromadb, Mkdir] \<and>
   create_chroma_client example_interrupted
     = (Inl KeyboardInterrupt, [ImportChromadb, Mkdir, PersistentClient]) \<and>
   http_client example_interrupted = Inr ()"
  by (simp add: create_chroma_client_def example_blocked_dir_def example_interrupted_def)

text \<open>
  C7, amended. An exception of the import of \<^verbatim>\<open>chromadb\<close> or of the creation of the
  persist directory is raised before any strategy is attempted. Otherwise the four
  constructions are tried in the order persistent, HTTP, settings, path: the client of
  the first one that does not raise is returned and the later ones are not tried; an
  exception under \<^verbatim>\<open>Exception\<close> leads to the next construction and any other exception
  is raised at once; when all four raise exceptions under \<^verbatim>\<open>Exception\<close> the function
  raises RuntimeError. Where the constructions raise nothing but exceptions under
  \<^verbatim>\<open>Exception\<close>, the function raises if and only if all four raise.
\<close>

theorem create_chroma_client_first_success:
  "(import_chromadb db = Some e \<longrightarrow> create_chroma_client db = (Inl e, [ImportChromadb])) \<and>
   (import_chromadb db = None \<and> mkdir db = Some e \<longrightarrow>
      create_chroma_client db = (Inl e, [ImportChromadb, Mkdir])) \<and>
   (import_chromadb db = None \<and> mkdir db = None \<longrightarrow>
     (persistent_client db = Inr c \<longrightarrow>
        create_chroma_client db = (Inr c, [ImportChromadb, Mkdir, PersistentClient])) \<and>
     (persistent_client db = Inl e \<and> \<not> is_Exception e \<longrightarrow>
        create_chroma_client db = (Inl e, [ImportChromadb, Mkdir, PersistentClient])) \<and>
     (falls_through (persistent_client db) \<and> http_client db = Inr c \<longrightarrow>
        create_chroma_client db = (Inr c, [ImportChromadb, Mkdir, PersistentClient, HttpClient])) \<and>
     (falls_through (persistent_client db) \<and> http_client db = Inl e \<and> \<not> is_Exception e \<longrightarrow>
        create_chroma_client db = (Inl e, [ImportChromadb, Mkdir, PersistentClient, HttpClient])) \<and>
     (falls_through (persistent_client db) \<and> falls_through (http_client db) \<and>
      settings_client db = Inr c \<longrightarrow>
        create_chroma_client db
          = (Inr c, [ImportChromadb, Mkdir, PersistentClient, HttpClient, SettingsClient])) \<and>
     (falls_through (persistent_client db) \<and> falls_through (http_client db) \<and>
      settings_client db = Inl e \<and> \<not> is_Exception e \<longrightarrow>
        create_chroma_client db
          = (Inl e, [ImportChromadb, Mkdir, PersistentClient, HttpClient, SettingsClient])) \<and>
     (falls_through (persistent_client db) \<and> falls_through (http_client db) \<and>
      falls_through (settings_client db) \<and> path_client db = Inr c \<longrightarrow>
        create_chroma_client db
          = (Inr c, [ImportChromadb, Mkdir, PersistentClient, HttpClient, SettingsClient, PathClient])) \<and>
     (falls_through (persistent_client db) \<and> falls_through (http_client db) \<and>
      falls_through (settings_client db) \<and> path_client db = Inl e \<and> \<not> is_Exception e \<longrightarrow>
        create_chroma_client db
          = (Inl e, [ImportChromadb, Mkdir, PersistentClient, HttpClient, SettingsClient, PathClient])) \<and>
     (falls_through (persistent_client db) \<and> falls_through (http_client db) \<and>
      falls_through (settings_client db) \<and> falls_through (path_client db) \<longrightarrow>
        create_chroma_client db
          = (Inl RuntimeError,
             [ImportChromadb, Mkdir, PersistentClient, HttpClient, SettingsClient, PathClient])) \<and>
     ((\<forall>x. persistent_client db = Inl x \<or> http_client db = Inl x \<or> settings_client db = Inl x \<or>
           path_client db = Inl x \<longrightarrow> is_Exception x) \<longrightarrow>
        (isl (fst (create_chroma_client db)) \<longleftrightarrow>
           isl (persistent_client db) \<and> isl (http_client db) \<and> isl (settings_client db) \<and>
           isl (path_client db)) \<and>
        (isl (fst (create_chroma_client db)) \<longrightarrow> fst (create_chroma_client db) = Inl RuntimeError)))"
proof (intro conjI impI)
  assume "\<forall>x. persistent_client db = Inl x \<or> http_client db = Inl x \<or> settings_client db = Inl x \<or>
           path_client db = Inl x \<longrightarrow> is_Exception x"
    and "import_chromadb db = None \<and> mkdir db = None"
  then show "isl (fst (create_chroma_client db)) \<longleftrightarrow>
           isl (persistent_client db) \<and> isl (http_client db) \<and> isl (settings_client db) \<and>
           isl (path_client db)"
    by (auto simp: create_chroma_client_def split: sum.splits)
next
  assume "\<forall>x. persistent_client db = Inl x \<or> http_client db = Inl x \<or> settings_client db = Inl x \<or>
           path_client db = Inl x \<longrightarrow> is_Exception x"
    and "import_chromadb db = None \<and> mkdir db = None"
    and "isl (fst (create_chroma_client db))"
  then show "fst (create_chroma_client db) = Inl RuntimeError"
    by (auto simp: create_chroma_client_def split: sum.splits)
qed (auto simp: create_chroma_client_def falls_through_def split: sum.splits)

theorem create_chroma_client_first_success_witness:
  "import_chromadb example_old_chromadb = None \<and> mkdir example_old_chromadb = None \<and>
   falls_through (persistent_client example_old_chromadb) \<and>
   falls_through (http_client example_old_chromadb) \<and>
   settings_client example_old_chromadb = Inr 3 \<and>
   create_chroma_client example_old_chromadb
     = (Inr 3, [ImportChromadb, Mkdir, PersistentClient, HttpClient, SettingsClient])"
proof -
  have h: "import_chromadb example_old_chromadb = None \<and> mkdir example_old_chromadb = None \<and>
     falls_through (persistent_client example_old_chromadb) \<and>
     falls_through (http_client example_old_chromadb) \<and>
     settings_client example_old_chromadb = Inr 3"
    by (simp add: example_old_chromadb_def falls_through_def)
  from h create_chroma_client_first_success [of example_old_chromadb _ 3]
  have "create_chroma_client example_old_chromadb
     = (Inr 3, [ImportChromadb, Mkdir, PersistentClient, HttpClient, SettingsClient])"
    by blast
  with h show ?thesis by blast
qed

section \<open>Skipped rows\<close>

text \<open>
  C9, as the claim states it, fails: of three rows with the ID \<^verbatim>\<open>a\<close>, the second without
  an embedding, the third is inserted under \<^verbatim>\<open>a_2\<close>, yet a document with the base ID
  was inserted, for the first row.
\<close>

theorem skipped_row_base_id_inserted:
  "(1::nat) < 2 \<and> 2 < length example_reused \<and>
   \<not> parsable example_lib (example_reused ! 1) \<and> parsable example_lib (example_reused ! 2) \<and>
   get_valid_video_id (example_reused ! 1) 1 = ''a'' \<and>
   get_valid_video_id (example_reused ! 2) 2 = ''a'' \<and>
   ids (iterrows example_lib example_reused) = [''a'', ''a_2''] \<and>
   ''a'' \<in> set (ids (iterrows example_lib example_reused))"
  by code_simp

text \<open>
  C9, amended. A skipped row still takes its ID: when an earlier row without a parsable
  embedding and a later row with one resolve to the same base ID, no document is
  inserted under the earlier row's unique ID, and the later row is inserted under a
  suffixed ID, different from the base ID. When no row before the skipped one took the
  base ID, the skipped row holds it and no document with the base ID is inserted.
\<close>

theorem skipped_row_consumes_id:
  "i < j \<and> j < length df \<and> \<not> parsable L (df ! i) \<and> parsable L (df ! j) \<and>
   get_valid_video_id (df ! i) i = get_valid_video_id (df ! j) j \<longrightarrow>
     row_ids df ! i \<notin> set (ids (iterrows L df)) \<and>
     row_ids df ! j \<in> set (ids (iterrows L df)) \<and>
     row_ids df ! j \<noteq> get_valid_video_id (df ! j) j \<and>
     (\<exists>c\<ge>1. row_ids df ! j = suffixed (get_valid_video_id (df ! j) j) c) \<and>
     (get_valid_video_id (df ! i) i \<notin> set (take i (row_ids df)) \<longrightarrow>
        row_ids df ! i = get_valid_video_id (df ! i) i \<and>
        get_valid_video_id (df ! j) j \<notin> set (ids (iterrows L df)))"
proof (intro impI, elim conjE)
  assume h: "i < j" "j < length df" "\<not> parsable L (df ! i)" "parsable L (df ! j)"
    "get_valid_video_id (df ! i) i = get_valid_video_id (df ! j) j"
  then have i: "i < length df" by simp
  from later_duplicate_suffixed [OF h(1,2,5)] obtain c where
    c: "1 \<le> c" "row_ids df ! j = suffixed (get_valid_video_id (df ! j) j) c"
    by blast
  have a: "row_ids df ! i \<notin> set (ids (iterrows L df))"
    using h(3) by (simp add: iterrows_ids_member [OF i])
  have b: "row_ids df ! j \<in> set (ids (iterrows L df))"
    using h(4) by (simp add: iterrows_ids_member [OF h(2)])
  have d: "row_ids df ! j \<noteq> get_valid_video_id (df ! j) j"
    using c(2) by (simp add: suffixed_neq)
  have e: "get_valid_video_id (df ! i) i \<notin> set (take i (row_ids df)) \<longrightarrow>
        row_ids df ! i = get_valid_video_id (df ! i) i \<and>
        get_valid_video_id (df ! j) j \<notin> set (ids (iterrows L df))"
  proof
    assume "get_valid_video_id (df ! i) i \<notin> set (take i (row_ids df))"
    then have "row_ids df ! i = get_valid_video_id (df ! i) i"
      using row_ids_nth [OF i] by (simp add: unique_id_unused fset_of_list_elem)
    with a h(5) show "row_ids df ! i = get_valid_video_id (df ! i) i \<and>
        get_valid_video_id (df ! j) j \<notin> set (ids (iterrows L df))"
      by simp
  qed
  from a b d e c show "row_ids df ! i \<notin> set (ids (iterrows L df)) \<and>
     row_ids df ! j \<in> set (ids (iterrows L df)) \<and>
     row_ids df ! j \<noteq> get_valid_video_id (df ! j) j \<and>
     (\<exists>c\<ge>1. row_ids df ! j = suffixed (get_valid_video_id (df ! j) j) c) \<and>
     (get_valid_video_id (df ! i) i \<notin> set (take i (row_ids df)) \<longrightarrow>
        row_ids df ! i = get_valid_video_id (df ! i) i \<and>
        get_valid_video_id (df ! j) j \<notin> set (ids (iterrows L df)))"
    by blast
qed

theorem skipped_row_consumes_id_witness:
  "(0::nat) < 1 \<and> 1 < length example_skipped \<and>
   \<not> parsable example_lib (example_skipped ! 0) \<and> parsable example_lib (example_skipped ! 1) \<and>
   get_valid_video_id (example_skipped ! 0) 0 = ''a'' \<and>
   get_valid_video_id (example_skipped ! 1) 1 = ''a'' \<and>
   ''a'' \<notin> set (take 0 (row_ids example_skipped)) \<and>
   row_ids example_skipped ! 1 \<noteq> ''a'' \<and>
   ''a'' \<notin> set (ids (iterrows example_lib example_skipped)) \<and>
   ids (iterrows example_lib example_skipped) = [''a_1''] \<and>
   printed (iterrows example_lib example_skipped) = [Skipping 0 ''a'']"
proof -
  have h: "(0::nat) < 1 \<and> 1 < length example_skipped \<and>
      \<not> parsable example_lib (example_skipped ! 0) \<and> parsable example_lib (example_skipped ! 1) \<and>
      get_valid_video_id (example_skipped ! 0) 0 = ''a'' \<and>
      get_valid_video_id (example_skipped ! 1) 1 = ''a''"
    by code_simp
  have v: "ids (iterrows example_lib example_skipped) = [''a_1''] \<and>
      printed (iterrows example_lib example_skipped) = [Skipping 0 ''a'']"
    by code_simp
  have z: "''a'' \<notin> set (take 0 (row_ids example_skipped))" by simp
  from h z skipped_row_consumes_id [of 0 1 example_skipped example_lib]
  have "row_ids example_skipped ! 1 \<noteq> ''a'' \<and>
    ''a'' \<notin> set (ids (iterrows example_lib example_skipped))"
    by simp
  with h v z show ?thesis by blast
qed

section \<open>What a run sends to the store\<close>

lemma slice_zip: "slice (zip xs ys) i j = zip (slice xs i j) (slice ys i j)"
  by (simp add: slice_def take_zip drop_zip)

lemma records_batch_at: "records (batch_at all n i) = slice (records all) i (min (i + BATCH) n)"
  by (cases all) (simp add: records_def batch_at_def Let_def slice_zip)

lemma concat_records:
  assumes "n = length (records all)"
  shows "concat (map (\<lambda>i. records (batch_at all n i)) (py_range 0 n BATCH)) = records all"
  using concat_slices [of BATCH "records all" 0] assms
  by (simp add: records_batch_at BATCH_def)

lemma insert_batch_recorded:
  assumes "\<forall>b s. add_keyword collection b s = (None, s @ records b)"
  shows "insert_batch collection i b w
           = (None, \<lparr>store = store w @ records b, calls = calls w @ [AddKeyword i]\<rparr>)"
proof -
  have "add_keyword collection b (store w) = (None, store w @ records b)"
    using assms by blast
  then show ?thesis by (simp add: insert_batch_def invoke_def)
qed

lemma insert_batches_recorded:
  assumes "\<forall>b s. add_keyword collection b s = (None, s @ records b)"
  shows "insert_batches collection all n starts w
           = (None, \<lparr>store = store w @ concat (map (\<lambda>i. records (batch_at all n i)) starts),
                     calls = calls w @ map AddKeyword starts\<rparr>)"
proof (induction starts arbitrary: w)
  case Nil
  then show ?case by simp
next
  case (Cons i starts)
  show ?case
    by (simp add: insert_batch_recorded [OF assms] Cons.IH)
qed

lemma filter_zip_snd:
  "length xs = length ys \<Longrightarrow> map snd (filter (\<lambda>(v, r). P r) (zip xs ys)) = filter P ys"
  by (induction xs ys rule: list_induct2) auto

lemma zip_four_maps:
  "zip (map fst xs) (zip (map f (map snd xs)) (zip (map g (map snd xs)) (map h (map snd xs))))
     = map (\<lambda>(v, r). (v, f r, g r, h r)) xs"
  by (induction xs) auto

lemma iterrows_records:
  "records (ids (iterrows L df), documents (iterrows L df), metadatas (iterrows L df),
            embeddings (iterrows L df))
   = map (\<lambda>(v, r). (v, safe_document r, row_metadata L r, parsed L r))
       (filter (\<lambda>(v, r). parsable L r) (zip (row_ids df) df))"
proof -
  let ?F = "filter (\<lambda>(v, r). parsable L r) (zip (row_ids df) df)"
  have f: "filter (parsable L) df = map snd ?F"
    by (simp add: filter_zip_snd row_ids_length)
  show ?thesis
    unfolding records_def iterrows_ids iterrows_documents iterrows_metadatas
        iterrows_embeddings f prod.case
    by (rule zip_four_maps)
qed

lemma main_recorded:
  assumes "file_exists" "read_csv = Inr df" "create_chroma_client db = (Inr client, cs)"
    "get_or_create_collection client COLLECTION_NAME = (Inr collection, cs')"
    "\<forall>b s. add_keyword collection b s = (None, s @ records b)"
    "persist_m client = None"
  shows "vector_db_main file_exists read_csv L db s0
     = (None,
        \<lparr>store = s0 @ map (\<lambda>(v, r). (v, safe_document r, row_metadata L r, parsed L r))
                        (filter (\<lambda>(v, r). parsable L r) (zip (row_ids df) df)),
         calls = ReadCsv # cs @ cs' @
                 map AddKeyword (py_range 0 (length (filter (parsable L) df)) BATCH)\<rparr>)"
proof -
  let ?a = "iterrows L df"
  let ?all = "(ids ?a, documents ?a, metadatas ?a, embeddings ?a)"
  let ?n = "length (ids ?a)"
  have lm: "lengths_match ?a"
    by (simp add: lengths_match_def iterrows_documents iterrows_metadatas iterrows_embeddings
        iterrows_ids_length)
  have n: "?n = length (filter (parsable L) df)" by (rule iterrows_ids_length)
  have len: "?n = length (records ?all)"
    using lm by (simp add: records_def lengths_match_def)
  show ?thesis
  proof (cases "ids ?a = []")
    case True
    then have "filter (\<lambda>(v, r). parsable L r) (zip (row_ids df) df) = []"
      by (simp add: iterrows_ids)
    moreover have "py_range 0 (length (filter (parsable L) df)) BATCH = []"
      using True n by (subst py_range.simps) simp
    ultimately show ?thesis
      using True assms(1-4) by (simp add: vector_db_main_def Let_def)
  next
    case False
    have "insert_batches collection ?all ?n (py_range 0 ?n BATCH)
            \<lparr>store = s0, calls = ReadCsv # cs @ cs'\<rparr>
          = (None, \<lparr>store = s0 @ records ?all,
                    calls = (ReadCsv # cs @ cs') @ map AddKeyword (py_range 0 ?n BATCH)\<rparr>)"
      using insert_batches_recorded [OF assms(5), of ?all ?n "py_range 0 ?n BATCH"
          "\<lparr>store = s0, calls = ReadCsv # cs @ cs'\<rparr>"]
        concat_records [OF len]
      by simp
    then show ?thesis
      using False lm assms(1-4,6) n
      by (simp add: vector_db_main_def Let_def persist_client_def iterrows_records)
  qed
qed

lemma persist_client_succeeds:
  assumes "\<forall>p s e s'. persist_m client = Some p \<and> p s = (Some e, s') \<longrightarrow> is_Exception e"
  shows "fst (persist_client client w) = None"
proof (cases "persist_m client")
  case None
  then show ?thesis by (simp add: persist_client_def)
next
  case (Some p)
  obtain r s' where p: "p (store w) = (r, s')" by (cases "p (store w)")
  show ?thesis
  proof (cases r)
    case None
    with Some p show ?thesis by (simp add: persist_client_def invoke_def)
  next
    case (Some e)
    with \<open>persist_m client = Some p\<close> p assms have "is_Exception e" by blast
    with Some \<open>persist_m client = Some p\<close> p show ?thesis
      by (simp add: persist_client_def invoke_def)
  qed
qed

lemma main_succeeds:
  assumes "file_exists" "read_csv = Inr df" "create_chroma_client db = (Inr client, cs)"
    "get_or_create_collection client COLLECTION_NAME = (Inr collection, cs')"
    "\<forall>b s. fst (add_keyword collection b s) = None"
    "\<forall>p s e s'. persist_m client = Some p \<and> p s = (Some e, s') \<longrightarrow> is_Exception e"
  shows "fst (vector_db_main file_exists read_csv L db s0) = None"
proof -
  have "lengths_match (iterrows L df)"
    by (simp add: lengths_match_def iterrows_documents iterrows_metadatas iterrows_embeddings
      iterrows_ids_length)
  moreover obtain w' where
    "insert_batches collection
       (ids (iterrows L df), documents (iterrows L df), metadatas (iterrows L df),
        embeddings (iterrows L df))
       (length (ids (iterrows L df))) (py_range 0 (length (ids (iterrows L df))) BATCH)
       \<lparr>store = s0, calls = ReadCsv # cs @ cs'\<rparr> = (None, w')"
    using insert_batches_succeed [OF assms(5)] by (metis eq_fst_iff)
  ultimately show ?thesis
    using assms(1-4) by (simp add: vector_db_main_def Let_def persist_client_succeeds [OF assms(6)])
qed

text \<open>
  C1. In a run over the frame \<open>df\<close>, a row whose embedding parses has its unique ID
  exactly once among the IDs to insert; a row whose embedding is missing or does not
  parse has no document under its ID, and the line that reports the skip is printed.
  A missing cell, and a string that neither parser turns into a list, do not parse; a
  non-empty string that \<^verbatim>\<open>literal_eval\<close>, or else \<^verbatim>\<open>json.loads\<close>, turns into a list
  parses to that list. The IDs and embeddings to insert are those of the parsable
  rows, in order, one for each. A collection that keeps the records it is given holds,
  after the run, one record for each parsable row, in order, with the row's unique ID,
  document text, metadata and embedding, and nothing for the other rows. The loop has
  no failing branch: when the file, the client, the collection and every insert call
  succeed, the run ends without an exception whatever the embeddings are.
\<close>

theorem parsable_rows_inserted_once:
  "(\<forall>i<length df.
      (parsable L (df ! i) \<longrightarrow> count_list (ids (iterrows L df)) (row_ids df ! i) = 1) \<and>
      (\<not> parsable L (df ! i) \<longrightarrow>
         row_ids df ! i \<notin> set (ids (iterrows L df)) \<and>
         Skipping i (row_ids df ! i) \<in> set (printed (iterrows L df)))) \<and>
   (\<forall>r. isna (row_get r ''embedding'') \<longrightarrow> \<not> parsable L r) \<and>
   (\<forall>r s. row_get r ''embedding'' = VStr s \<and>
      Option.bind (literal_eval L s) (py_list L) = None \<and>
      Option.bind (json_loads L s) (py_list L) = None \<longrightarrow> \<not> parsable L r) \<and>
   (\<forall>r s v xs. row_get r ''embedding'' = VStr s \<and> s \<noteq> [] \<and>
      literal_eval L s = Some v \<and> py_list L v = Some xs \<longrightarrow> parsable L r \<and> parsed L r = xs) \<and>
   (\<forall>r s v xs. row_get r ''embedding'' = VStr s \<and> s \<noteq> [] \<and>
      Option.bind (literal_eval L s) (py_list L) = None \<and>
      json_loads L s = Some v \<and> py_list L v = Some xs \<longrightarrow> parsable L r \<and> parsed L r = xs) \<and>
   ids (iterrows L df) = map fst (filter (\<lambda>(v, r). parsable L r) (zip (row_ids df) df)) \<and>
   embeddings (iterrows L df) = map (parsed L) (filter (parsable L) df) \<and>
   length (ids (iterrows L df)) = length (filter (parsable L) df) \<and>
   (file_exists \<and> read_csv = Inr df \<and> create_chroma_client db = (Inr client, cs) \<and>
    get_or_create_collection client COLLECTION_NAME = (Inr collection, cs') \<and>
    (\<forall>b s. add_keyword collection b s = (None, s @ records b)) \<and> persist_m client = None \<longrightarrow>
      vector_db_main file_exists read_csv L db s0
        = (None,
           \<lparr>store = s0 @ map (\<lambda>(v, r). (v, safe_document r, row_metadata L r, parsed L r))
                           (filter (\<lambda>(v, r). parsable L r) (zip (row_ids df) df)),
            calls = ReadCsv # cs @ cs' @
                    map AddKeyword (py_range 0 (length (filter (parsable L) df)) BATCH)\<rparr>)) \<and>
   (file_exists \<and> read_csv = Inr df \<and> create_chroma_client db = (Inr client, cs) \<and>
    get_or_create_collection client COLLECTION_NAME = (Inr collection', cs') \<and>
    (\<forall>b s. fst (add_keyword collection' b s) = None) \<and>
    (\<forall>p s e s'. persist_m client = Some p \<and> p s = (Some e, s') \<longrightarrow> is_Exception e) \<longrightarrow>
      fst (vector_db_main file_exists read_csv L db s1) = None)"
proof -
  have a: "\<forall>i<length df.
      (parsable L (df ! i) \<longrightarrow> count_list (ids (iterrows L df)) (row_ids df ! i) = 1) \<and>
      (\<not> parsable L (df ! i) \<longrightarrow>
         row_ids df ! i \<notin> set (ids (iterrows L df)) \<and>
         Skipping i (row_ids df ! i) \<in> set (printed (iterrows L df)))"
  proof (intro allI impI conjI)
    fix i assume "i < length df" "parsable L (df ! i)"
    then have "row_ids df ! i \<in> set (ids (iterrows L df))"
      by (simp add: iterrows_ids_member)
    then show "count_list (ids (iterrows L df)) (row_ids df ! i) = 1"
      by (rule count_list_distinct [OF iterrows_ids_distinct])
  next
    fix i assume "i < length df" "\<not> parsable L (df ! i)"
    then show "row_ids df ! i \<notin> set (ids (iterrows L df))"
      by (simp add: iterrows_ids_member)
  next
    fix i assume "i < length df" "\<not> parsable L (df ! i)"
    then show "Skipping i (row_ids df ! i) \<in> set (printed (iterrows L df))"
      by (rule printed_member)
  qed
  have b: "\<forall>r. isna (row_get r ''embedding'') \<longrightarrow> \<not> parsable L r"
    by (simp add: parsable_def ensure_embedding_list_missing)
  have c: "\<forall>r s. row_get r ''embedding'' = VStr s \<and>
      Option.bind (literal_eval L s) (py_list L) = None \<and>
      Option.bind (json_loads L s) (py_list L) = None \<longrightarrow> \<not> parsable L r"
    by (simp add: parsable_def ensure_embedding_list_unparsable)
  have p1: "\<forall>r s v xs. row_get r ''embedding'' = VStr s \<and> s \<noteq> [] \<and>
      literal_eval L s = Some v \<and> py_list L v = Some xs \<longrightarrow> parsable L r \<and> parsed L r = xs"
    by (simp add: parsable_def parsed_def ensure_embedding_list_def)
  have p2: "\<forall>r s v xs. row_get r ''embedding'' = VStr s \<and> s \<noteq> [] \<and>
      Option.bind (literal_eval L s) (py_list L) = None \<and>
      json_loads L s = Some v \<and> py_list L v = Some xs \<longrightarrow> parsable L r \<and> parsed L r = xs"
    by (simp add: parsable_def parsed_def ensure_embedding_list_def)
  have m: "file_exists \<and> read_csv = Inr df \<and> create_chroma_client db = (Inr client, cs) \<and>
    get_or_create_collection client COLLECTION_NAME = (Inr collection, cs') \<and>
    (\<forall>b s. add_keyword collection b s = (None, s @ records b)) \<and> persist_m client = None \<longrightarrow>
      vector_db_main file_exists read_csv L db s0
        = (None,
           \<lparr>store = s0 @ map (\<lambda>(v, r). (v, safe_document r, row_metadata L r, parsed L r))
                           (filter (\<lambda>(v, r). parsable L r) (zip (row_ids df) df)),
            calls = ReadCsv # cs @ cs' @
                    map AddKeyword (py_range 0 (length (filter (parsable L) df)) BATCH)\<rparr>)"
  proof (intro impI, elim conjE)
    assume "file_exists" "read_csv = Inr df" "create_chroma_client db = (Inr client, cs)"
      "get_or_create_collection client COLLECTION_NAME = (Inr collection, cs')"
      "\<forall>b s. add_keyword collection b s = (None, s @ records b)" "persist_m client = None"
    then show "vector_db_main file_exists read_csv L db s0
        = (None,
           \<lparr>store = s0 @ map (\<lambda>(v, r). (v, safe_document r, row_metadata L r, parsed L r))
                           (filter (\<lambda>(v, r). parsable L r) (zip (row_ids df) df)),
            calls = ReadCsv # cs @ cs' @
                    map AddKeyword (py_range 0 (length (filter (parsable L) df)) BATCH)\<rparr>)"
      by (rule main_recorded)
  qed
  have d: "file_exists \<and> read_csv = Inr df \<and> create_chroma_client db = (Inr client, cs) \<and>
    get_or_create_collection client COLLECTION_NAME = (Inr collection', cs') \<and>
    (\<forall>b s. fst (add_keyword collection' b s) = None) \<and>
    (\<forall>p s e s'. persist_m client = Some p \<and> p s = (Some e, s') \<longrightarrow> is_Exception e) \<longrightarrow>
      fst (vector_db_main file_exists read_csv L db s1) = None"
  proof (intro impI, elim conjE)
    assume "file_exists" "read_csv = Inr df" "create_chroma_client db = (Inr client, cs)"
      "get_or_create_collection client COLLECTION_NAME = (Inr collection', cs')"
      "\<forall>b s. fst (add_keyword collection' b s) = None"
      "\<forall>p s e s'. persist_m client = Some p \<and> p s = (Some e, s') \<longrightarrow> is_Exception e"
    then show "fst (vector_db_main file_exists read_csv L db s1) = None"
      by (rule main_succeeds)
  qed
  show ?thesis
    by (intro conjI) (rule a b c p1 p2 m d iterrows_ids iterrows_embeddings iterrows_ids_length)+
qed

theorem parsable_rows_inserted_once_witness:
  "(1::nat) < length example_skipped \<and>
   \<not> parsable example_lib (example_skipped ! 0) \<and> parsable example_lib (example_skipped ! 1) \<and>
   count_list (ids (iterrows example_lib example_skipped)) (row_ids example_skipped ! 1) = 1 \<and>
   row_ids example_skipped ! 0 \<notin> set (ids (iterrows example_lib example_skipped)) \<and>
   Skipping 0 (row_ids example_skipped ! 0) \<in> set (printed (iterrows example_lib example_skipped)) \<and>
   row_ids example_skipped = [''a'', ''a_1''] \<and>
   row_get (example_skipped ! 1) ''embedding'' = VStr ''[1, 2]'' \<and>
   literal_eval example_lib ''[1, 2]'' = Some [1, 2] \<and>
   parsed example_lib (example_skipped ! 1) = [1, 2] \<and>
   create_chroma_client example_recorder_chromadb
     = (Inr example_recorder_client, [ImportChromadb, Mkdir, PersistentClient]) \<and>
   get_or_create_collection example_recorder_client COLLECTION_NAME
     = (Inr example_recorder, [GetOrCreateCollection]) \<and>
   vector_db_main True (Inr example_skipped) example_lib example_recorder_chromadb []
     = (None,
        \<lparr>store = [(''a_1'', [],
                   \<lparr>title = [], channel_title = [], view_count = None, duration_seconds = None\<rparr>,
                   [1, 2])],
         calls = [ReadCsv, ImportChromadb, Mkdir, PersistentClient, GetOrCreateCollection,
                  AddKeyword 0]\<rparr>)"
proof -
  have h: "(0::nat) < length example_skipped \<and> (1::nat) < length example_skipped \<and>
      \<not> parsable example_lib (example_skipped ! 0) \<and> parsable example_lib (example_skipped ! 1) \<and>
      row_ids example_skipped = [''a'', ''a_1''] \<and>
      row_get (example_skipped ! 1) ''embedding'' = VStr ''[1, 2]'' \<and>
      ''[1, 2]'' \<noteq> [] \<and>
      literal_eval example_lib ''[1, 2]'' = Some [1, 2] \<and>
      py_list example_lib [1, 2] = Some [1, 2]"
    by code_simp
  have c: "create_chroma_client example_recorder_chromadb
      = (Inr example_recorder_client, [ImportChromadb, Mkdir, PersistentClient])"
    by (simp add: create_chroma_client_def example_recorder_chromadb_def)
  have g: "get_or_create_collection example_recorder_client COLLECTION_NAME
      = (Inr example_recorder, [GetOrCreateCollection])"
    by (simp add: get_or_create_collection_def example_recorder_client_def)
  have a: "\<forall>b s. add_keyword example_recorder b s = (None, s @ records b)"
    by (simp add: example_recorder_def)
  have p: "persist_m example_recorder_client = None"
    by (simp add: example_recorder_client_def)
  have v: "[] @ map (\<lambda>(v, r). (v, safe_document r, row_metadata example_lib r, parsed example_lib r))
        (filter (\<lambda>(v, r). parsable example_lib r) (zip (row_ids example_skipped) example_skipped))
      = [(''a_1'', [],
          \<lparr>title = [], channel_title = [], view_count = None, duration_seconds = None\<rparr>, [1, 2])] \<and>
    ReadCsv # [ImportChromadb, Mkdir, PersistentClient] @ [GetOrCreateCollection] @
      map AddKeyword (py_range 0 (length (filter (parsable example_lib) example_skipped)) BATCH)
      = [ReadCsv, ImportChromadb, Mkdir, PersistentClient, GetOrCreateCollection, AddKeyword 0]"
    by code_simp
  note t = parsable_rows_inserted_once
    [where df = example_skipped and L = example_lib and file_exists = True
       and read_csv = "Inr example_skipped" and db = example_recorder_chromadb
       and client = example_recorder_client and cs = "[ImportChromadb, Mkdir, PersistentClient]"
       and collection = example_recorder and cs' = "[GetOrCreateCollection]" and ?s0.0 = "[]"]
  from t h have "count_list (ids (iterrows example_lib example_skipped)) (row_ids example_skipped ! 1) = 1"
    by blast
  moreover from t h have "row_ids example_skipped ! 0 \<notin> set (ids (iterrows example_lib example_skipped)) \<and>
    Skipping 0 (row_ids example_skipped ! 0) \<in> set (printed (iterrows example_lib example_skipped))"
    by blast
  moreover from t h have "parsed example_lib (example_skipped ! 1) = [1, 2]"
    by blast
  moreover from t c g a p
  have "vector_db_main True (Inr example_skipped) example_lib example_recorder_chromadb []
     = (None,
        \<lparr>store = [] @ map (\<lambda>(v, r). (v, safe_document r, row_metadata example_lib r, parsed example_lib r))
          (filter (\<lambda>(v, r). parsable example_lib r) (zip (row_ids example_skipped) example_skipped)),
         calls = ReadCsv # [ImportChromadb, Mkdir, PersistentClient] @ [GetOrCreateCollection] @
           map AddKeyword (py_range 0 (length (filter (parsable example_lib) example_skipped)) BATCH)\<rparr>)"
    by blast
  ultimately show ?thesis using h c g v by simp
qed

lemma batch_sizes:
  assumes "length xs = n"
  shows "(\<forall>i \<in> set (py_range 0 n BATCH).
           0 < length (slice xs i (min (i + BATCH) n)) \<and>
           length (slice xs i (min (i + BATCH) n)) \<le> BATCH) \<and>
         (\<forall>k. Suc k < length (py_range 0 n BATCH) \<longrightarrow>
           length (slice xs (py_range 0 n BATCH ! k) (min (py_range 0 n BATCH ! k + BATCH) n)) = BATCH)"
proof (intro conjI ballI allI impI)
  fix i assume "i \<in> set (py_range 0 n BATCH)"
  then have "i < length xs" using assms by (simp add: py_range_pos)
  then show "0 < length (slice xs i (min (i + BATCH) n))"
    using assms slice_length [of xs i BATCH] by (simp add: BATCH_def)
  show "length (slice xs i (min (i + BATCH) n)) \<le> BATCH"
    using assms slice_length [of xs i BATCH] by simp
next
  fix k assume "Suc k < length (py_range 0 n BATCH)"
  then have "py_range 0 n BATCH ! k + BATCH < n"
    by (rule py_range_full_before_last)
  then show "length (slice xs (py_range 0 n BATCH ! k) (min (py_range 0 n BATCH ! k + BATCH) n)) = BATCH"
    using assms by (auto simp: slice_def min_def)
qed

lemma main_inserts_batches:
  assumes "file_exists" "read_csv = Inr df" "create_chroma_client db = (Inr client, cs)"
    "get_or_create_collection client COLLECTION_NAME = (Inr collection, cs')"
    "ids (iterrows L df) \<noteq> []"
  shows "vector_db_main file_exists read_csv L db s0
     = (case insert_batches collection
               (ids (iterrows L df), documents (iterrows L df), metadatas (iterrows L df),
                embeddings (iterrows L df))
               (length (ids (iterrows L df))) (py_range 0 (length (ids (iterrows L df))) BATCH)
               \<lparr>store = s0, calls = ReadCsv # cs @ cs'\<rparr> of
          (Some e, w') \<Rightarrow> (Some e, w')
        | (None, w') \<Rightarrow> persist_client client w')"
proof -
  have "lengths_match (iterrows L df)"
    by (simp add: lengths_match_def iterrows_documents iterrows_metadatas iterrows_embeddings
      iterrows_ids_length)
  then show ?thesis
    using assms by (simp add: vector_db_main_def Let_def)
qed

section \<open>The insertion of the batches\<close>

text \<open>
  C6, as the claim states it, fails: line 242 catches \<^verbatim>\<open>Exception\<close> only, so when the
  positional call is interrupted the loader does not fall back to \<^verbatim>\<open>upsert\<close>, although
  the collection has it.
\<close>

theorem positional_interrupt_skips_upsert:
  "add_keyword example_interrupted_collection ([''x''], [''d''], [], [[1]]) [] = (Some TypeError, []) \<and>
   add_positional example_interrupted_collection ([''x''], [''d''], [], [[1]]) []
     = (Some KeyboardInterrupt, []) \<and>
   upsert example_interrupted_collection \<noteq> None \<and>
   insert_batch example_interrupted_collection 0 ([''x''], [''d''], [], [[1]])
       \<lparr>store = [], calls = []\<rparr>
     = (Some KeyboardInterrupt, \<lparr>store = [], calls = [AddKeyword 0, AddPositional 0]\<rparr>)"
  by (simp add: insert_batch_def invoke_def example_interrupted_collection_def)

lemma fst_batch_at:
  "fst (batch_at (xs, ds, ms, es) n i) = slice xs i (min (i + BATCH) n)"
  by (simp add: batch_at_def Let_def)

text \<open>
  C6, amended. The insertion of a batch: the keyword call first; when it raises
  TypeError, the positional call on the same batch; when that raises an exception
  under \<^verbatim>\<open>Exception\<close>, \<^verbatim>\<open>upsert\<close> if the collection has it, whose exception is not
  caught, and otherwise the exception of the positional call is raised again. Any
  other exception of the keyword call, and an exception of the positional call
  outside \<^verbatim>\<open>Exception\<close>, is raised at once. An exception of a batch ends the loop over
  the batches. The batch that starts at \<open>i\<close> holds the slices from \<open>i\<close> to \<open>i + 256\<close> of
  the four lists; over the starts 0, 256, 512, ... the batches joined are the whole
  lists, none is empty or longer than 256, and all but the last hold exactly 256.
  The run passes the four lists of the row loop to this loop, and ends with the
  exception of the first batch that raises.
\<close>

theorem insert_batch_fallbacks:
  "(add_keyword collection b (store w) = (None, s1) \<longrightarrow>
      insert_batch collection i b w
        = (None, \<lparr>store = s1, calls = calls w @ [AddKeyword i]\<rparr>)) \<and>
   (add_keyword collection b (store w) = (Some e, s1) \<and> e \<noteq> TypeError \<longrightarrow>
      insert_batch collection i b w
        = (Some e, \<lparr>store = s1, calls = calls w @ [AddKeyword i]\<rparr>)) \<and>
   (add_keyword collection b (store w) = (Some TypeError, s1) \<and>
    add_positional collection b s1 = (None, s2) \<longrightarrow>
      insert_batch collection i b w
        = (None, \<lparr>store = s2, calls = calls w @ [AddKeyword i, AddPositional i]\<rparr>)) \<and>
   (add_keyword collection b (store w) = (Some TypeError, s1) \<and>
    add_positional collection b s1 = (Some e2, s2) \<and> is_Exception e2 \<and>
    upsert collection = Some up \<and> up b s2 = (r, s3) \<longrightarrow>
      insert_batch collection i b w
        = (r, \<lparr>store = s3, calls = calls w @ [AddKeyword i, AddPositional i, Upsert i]\<rparr>)) \<and>
   (add_keyword collection b (store w) = (Some TypeError, s1) \<and>
    add_positional collection b s1 = (Some e2, s2) \<and> is_Exception e2 \<and>
    upsert collection = None \<longrightarrow>
      insert_batch collection i b w
        = (Some e2, \<lparr>store = s2, calls = calls w @ [AddKeyword i, AddPositional i]\<rparr>)) \<and>
   (add_keyword collection b (store w) = (Some TypeError, s1) \<and>
    add_positional collection b s1 = (Some e2, s2) \<and> \<not> is_Exception e2 \<longrightarrow>
      insert_batch collection i b w
        = (Some e2, \<lparr>store = s2, calls = calls w @ [AddKeyword i, AddPositional i]\<rparr>)) \<and>
   (insert_batch collection i (batch_at all n i) w = (Some e, w') \<longrightarrow>
      insert_batches collection all n (i # starts) w = (Some e, w')) \<and>
   (insert_batch collection i (batch_at all n i) w = (None, w') \<longrightarrow>
      insert_batches collection all n (i # starts) w = insert_batches collection all n starts w') \<and>
   BATCH = 256 \<and>
   batch_at (xs, ds, ms, es) n i
     = (slice xs i (min (i + BATCH) n), slice ds i (min (i + BATCH) n),
        slice ms i (min (i + BATCH) n), slice es i (min (i + BATCH) n)) \<and>
   (length xs = n \<and> length ds = n \<and> length ms = n \<and> length es = n \<longrightarrow>
      concat (map (\<lambda>i. records (batch_at (xs, ds, ms, es) n i)) (py_range 0 n BATCH))
        = zip xs (zip ds (zip ms es)) \<and>
      concat (map (\<lambda>i. fst (batch_at (xs, ds, ms, es) n i)) (py_range 0 n BATCH)) = xs \<and>
      (\<forall>i \<in> set (py_range 0 n BATCH).
         0 < length (fst (batch_at (xs, ds, ms, es) n i)) \<and>
         length (fst (batch_at (xs, ds, ms, es) n i)) \<le> BATCH) \<and>
      (\<forall>k. Suc k < length (py_range 0 n BATCH) \<longrightarrow>
         length (fst (batch_at (xs, ds, ms, es) n (py_range 0 n BATCH ! k))) = BATCH)) \<and>
   (file_exists \<and> read_csv = Inr df \<and> create_chroma_client db = (Inr client, cs) \<and>
    get_or_create_collection client COLLECTION_NAME = (Inr collection, cs') \<and>
    ids (iterrows L df) \<noteq> [] \<longrightarrow>
      vector_db_main file_exists read_csv L db s0
        = (case insert_batches collection
                  (ids (iterrows L df), documents (iterrows L df), metadatas (iterrows L df),
                   embeddings (iterrows L df))
                  (length (ids (iterrows L df)))
                  (py_range 0 (length (ids (iterrows L df))) BATCH)
                  \<lparr>store = s0, calls = ReadCsv # cs @ cs'\<rparr> of
             (Some e, w') \<Rightarrow> (Some e, w')
           | (None, w') \<Rightarrow> persist_client client w'))"
proof -
  have a: "add_keyword collection b (store w) = (None, s1) \<longrightarrow>
      insert_batch collection i b w
        = (None, \<lparr>store = s1, calls = calls w @ [AddKeyword i]\<rparr>)"
    by (simp add: insert_batch_def invoke_def)
  have b: "add_keyword collection b (store w) = (Some e, s1) \<and> e \<noteq> TypeError \<longrightarrow>
      insert_batch collection i b w
        = (Some e, \<lparr>store = s1, calls = calls w @ [AddKeyword i]\<rparr>)"
    by (simp add: insert_batch_def invoke_def)
  have c: "add_keyword collection b (store w) = (Some TypeError, s1) \<and>
    add_positional collection b s1 = (None, s2) \<longrightarrow>
      insert_batch collection i b w
        = (None, \<lparr>store = s2, calls = calls w @ [AddKeyword i, AddPositional i]\<rparr>)"
    by (simp add: insert_batch_def invoke_def)
  have d: "add_keyword collection b (store w) = (Some TypeError, s1) \<and>
    add_positional collection b s1 = (Some e2, s2) \<and> is_Exception e2 \<and>
    upsert collection = Some up \<and> up b s2 = (r, s3) \<longrightarrow>
      insert_batch collection i b w
        = (r, \<lparr>store = s3, calls = calls w @ [AddKeyword i, AddPositional i, Upsert i]\<rparr>)"
    by (simp add: insert_batch_def invoke_def)
  have e: "add_keyword collection b (store w) = (Some TypeError, s1) \<and>
    add_positional collection b s1 = (Some e2, s2) \<and> is_Exception e2 \<and>
    upsert collection = None \<longrightarrow>
      insert_batch collection i b w
        = (Some e2, \<lparr>store = s2, calls = calls w @ [AddKeyword i, AddPositional i]\<rparr>)"
    by (simp add: insert_batch_def invoke_def)
  have e': "add_keyword collection b (store w) = (Some TypeError, s1) \<and>
    add_positional collection b s1 = (Some e2, s2) \<and> \<not> is_Exception e2 \<longrightarrow>
      insert_batch collection i b w
        = (Some e2, \<lparr>store = s2, calls = calls w @ [AddKeyword i, AddPositional i]\<rparr>)"
    by (simp add: insert_batch_def invoke_def)
  have f: "insert_batch collection i (batch_at all n i) w = (Some e, w') \<longrightarrow>
      insert_batches collection all n (i # starts) w = (Some e, w')"
    by simp
  have g: "insert_batch collection i (batch_at all n i) w = (None, w') \<longrightarrow>
      insert_batches collection all n (i # starts) w = insert_batches collection all n starts w'"
    by simp
  have h: "BATCH = 256" by (simp add: BATCH_def)
  have p: "batch_at (xs, ds, ms, es) n i
     = (slice xs i (min (i + BATCH) n), slice ds i (min (i + BATCH) n),
        slice ms i (min (i + BATCH) n), slice es i (min (i + BATCH) n))"
    by (simp add: batch_at_def Let_def)
  have q: "length xs = n \<and> length ds = n \<and> length ms = n \<and> length es = n \<longrightarrow>
      concat (map (\<lambda>i. records (batch_at (xs, ds, ms, es) n i)) (py_range 0 n BATCH))
        = zip xs (zip ds (zip ms es)) \<and>
      concat (map (\<lambda>i. fst (batch_at (xs, ds, ms, es) n i)) (py_range 0 n BATCH)) = xs \<and>
      (\<forall>i \<in> set (py_range 0 n BATCH).
         0 < length (fst (batch_at (xs, ds, ms, es) n i)) \<and>
         length (fst (batch_at (xs, ds, ms, es) n i)) \<le> BATCH) \<and>
      (\<forall>k. Suc k < length (py_range 0 n BATCH) \<longrightarrow>
         length (fst (batch_at (xs, ds, ms, es) n (py_range 0 n BATCH ! k))) = BATCH)"
  proof (intro impI, elim conjE)
    assume l: "length xs = n" "length ds = n" "length ms = n" "length es = n"
    then have "n = length (records (xs, ds, ms, es))"
      by (simp add: records_def)
    from concat_records [OF this]
    have r1: "concat (map (\<lambda>i. records (batch_at (xs, ds, ms, es) n i)) (py_range 0 n BATCH))
        = zip xs (zip ds (zip ms es))"
      by (simp add: records_def)
    have r2: "concat (map (\<lambda>i. fst (batch_at (xs, ds, ms, es) n i)) (py_range 0 n BATCH)) = xs"
      using concat_slices [of BATCH xs 0] l(1) by (simp add: fst_batch_at BATCH_def)
    from batch_sizes [OF l(1)] r1 r2
    show "concat (map (\<lambda>i. records (batch_at (xs, ds, ms, es) n i)) (py_range 0 n BATCH))
        = zip xs (zip ds (zip ms es)) \<and>
      concat (map (\<lambda>i. fst (batch_at (xs, ds, ms, es) n i)) (py_range 0 n BATCH)) = xs \<and>
      (\<forall>i \<in> set (py_range 0 n BATCH).
         0 < length (fst (batch_at (xs, ds, ms, es) n i)) \<and>
         length (fst (batch_at (xs, ds, ms, es) n i)) \<le> BATCH) \<and>
      (\<forall>k. Suc k < length (py_range 0 n BATCH) \<longrightarrow>
         length (fst (batch_at (xs, ds, ms, es) n (py_range 0 n BATCH ! k))) = BATCH)"
      by (simp add: fst_batch_at)
  qed
  have m: "file_exists \<and> read_csv = Inr df \<and> create_chroma_client db = (Inr client, cs) \<and>
    get_or_create_collection client COLLECTION_NAME = (Inr collection, cs') \<and>
    ids (iterrows L df) \<noteq> [] \<longrightarrow>
      vector_db_main file_exists read_csv L db s0
        = (case insert_batches collection
                  (ids (iterrows L df), documents (iterrows L df), metadatas (iterrows L df),
                   embeddings (iterrows L df))
                  (length (ids (iterrows L df)))
                  (py_range 0 (length (ids (iterrows L df))) BATCH)
                  \<lparr>store = s0, calls = ReadCsv # cs @ cs'\<rparr> of
             (Some e, w') \<Rightarrow> (Some e, w')
           | (None, w') \<Rightarrow> persist_client client w')"
  proof (intro impI, elim conjE)
    assume "file_exists" "read_csv = Inr df" "create_chroma_client db = (Inr client, cs)"
      "get_or_create_collection client COLLECTION_NAME = (Inr collection, cs')"
      "ids (iterrows L df) \<noteq> []"
    then show "vector_db_main file_exists read_csv L db s0
        = (case insert_batches collection
                  (ids (iterrows L df), documents (iterrows L df), metadatas (iterrows L df),
                   embeddings (iterrows L df))
                  (length (ids (iterrows L df)))
                  (py_range 0 (length (ids (iterrows L df))) BATCH)
                  \<lparr>store = s0, calls = ReadCsv # cs @ cs'\<rparr> of
             (Some e, w') \<Rightarrow> (Some e, w')
           | (None, w') \<Rightarrow> persist_client client w')"
      by (rule main_inserts_batches)
  qed
  show ?thesis
    by (intro conjI) (rule a b c d e e' f g h p q m)+
qed

theorem insert_batch_fallbacks_witness:
  "add_keyword example_legacy_collection ([''x''], [''d''], [], [[1]]) [] = (Some TypeError, []) \<and>
   add_positional example_legacy_collection ([''x''], [''d''], [], [[1]]) [] = (Some ValueError, []) \<and>
   is_Exception ValueError \<and>
   insert_batch example_legacy_collection 0 ([''x''], [''d''], [], [[1]]) \<lparr>store = [], calls = []\<rparr>
     = (None, \<lparr>store = [''x''], calls = [AddKeyword 0, AddPositional 0, Upsert 0]\<rparr>) \<and>
   py_range 0 300 BATCH = [0, 256] \<and>
   length example_ids = 300 \<and>
   length (fst (batch_at (example_ids, example_ids, replicate 300 example_metadata, replicate 300 ([] :: int list)) 300 0)) = BATCH \<and>
   length (fst (batch_at (example_ids, example_ids, replicate 300 example_metadata, replicate 300 ([] :: int list)) 300 256)) = 44"
proof -
  have h: "add_keyword example_legacy_collection ([''x''], [''d''], [], [[1]]) (store \<lparr>store = [], calls = []\<rparr>)
        = (Some TypeError, []) \<and>
      add_positional example_legacy_collection ([''x''], [''d''], [], [[1]]) [] = (Some ValueError, []) \<and>
      is_Exception ValueError \<and>
      upsert example_legacy_collection = Some (\<lambda>b s. (None, s @ fst b)) \<and>
      (\<lambda>b s. (None, s @ fst b)) ([''x''], [''d''], [], [[1::int]]) ([] :: string list)
        = (None :: exn option, [''x''])"
    by (simp add: example_legacy_collection_def)
  have r: "py_range 0 300 BATCH = [0, 256] \<and> length example_ids = 300 \<and>
      length (fst (batch_at (example_ids, example_ids, replicate 300 example_metadata, replicate 300 ([] :: int list)) 300 256)) = 44"
    by code_simp
  note t1 = insert_batch_fallbacks
    [where collection = example_legacy_collection and b = "([''x''], [''d''], [], [[1]])"
       and w = "\<lparr>store = [], calls = []\<rparr>" and ?s1.0 = "[]" and i = 0 and ?e2.0 = ValueError
       and ?s2.0 = "[]" and up = "\<lambda>b s. (None, s @ fst b)" and r = None and ?s3.0 = "[''x'']",
     THEN conjunct2, THEN conjunct2, THEN conjunct2, THEN conjunct1]
  from t1 h
  have i: "insert_batch example_legacy_collection 0 ([''x''], [''d''], [], [[1]]) \<lparr>store = [], calls = []\<rparr>
     = (None, \<lparr>store = [''x''], calls = [AddKeyword 0, AddPositional 0, Upsert 0]\<rparr>)"
    by simp
  have l1: "length example_ids = 300" using r by blast
  have l2: "length (replicate 300 example_metadata) = 300 \<and>
      length (replicate 300 ([] :: int list)) = 300"
    by simp
  have l: "length example_ids = 300 \<and> length example_ids = 300 \<and>
      length (replicate 300 example_metadata) = 300 \<and> length (replicate 300 ([] :: int list)) = 300"
    using l1 l2 by blast
  note t2 = insert_batch_fallbacks
    [where xs = example_ids and ds = example_ids and ms = "replicate 300 example_metadata"
       and es = "replicate 300 ([] :: int list)" and n = 300,
     THEN conjunct2, THEN conjunct2, THEN conjunct2, THEN conjunct2, THEN conjunct2,
     THEN conjunct2, THEN conjunct2, THEN conjunct2, THEN conjunct2, THEN conjunct2,
     THEN conjunct1, THEN mp, OF l]
  note t3 = t2 [THEN conjunct2, THEN conjunct2, THEN conjunct2, rule_format, of 0]
  from t3 r
  have "length (fst (batch_at (example_ids, example_ids, replicate 300 example_metadata,
           replicate 300 ([] :: int list)) 300 0)) = BATCH"
    by simp
  with h i r show ?thesis by simp
qed

section \<open>The round trip of an embedding\<close>

definition num_char :: "char \<Rightarrow> bool" where
  "num_char c = (isdig c \<or> c = CHR ''-'' \<or> c = CHR ''+'' \<or> c = CHR ''.'' \<or> c = CHR ''e'')"

lemma num_char_plain:
  "num_char c \<Longrightarrow> \<not> isspace c \<and> c \<noteq> CHR '','' \<and> c \<noteq> CHR ''['' \<and> c \<noteq> CHR '']''"
  by (auto simp: num_char_def isdig_def isspace_def Let_def)

lemma exponent_ok_chars: "exponent_ok s \<Longrightarrow> list_all num_char s"
  by (auto simp: exponent_ok_def num_char_def Let_def list_all_iff
      split: list.splits if_splits)

lemma takeWhile_isdig_chars: "list_all num_char (takeWhile isdig q)"
  by (induction q) (auto simp: num_char_def)

lemma list_all_take_drop_While:
  "list_all P (takeWhile Q u) \<Longrightarrow> list_all P (dropWhile Q u) \<Longrightarrow> list_all P u"
  by (metis list_all_append takeWhile_dropWhile_id)

lemma fraction_ok_chars:
  assumes "fraction_ok r"
  shows "list_all num_char r"
proof (cases r)
  case Nil
  then show ?thesis by simp
next
  case (Cons c q)
  show ?thesis
  proof (cases "c = CHR ''.''")
    case True
    with assms Cons have d: "dropWhile isdig q = [] \<or> exponent_ok (dropWhile isdig q)"
      by (simp add: fraction_ok_def)
    have "list_all num_char (dropWhile isdig q)"
    proof (cases "dropWhile isdig q = []")
      case True
      then show ?thesis by (simp only: list.pred_inject(1))
    next
      case False
      with d have "exponent_ok (dropWhile isdig q)" by blast
      then show ?thesis by (rule exponent_ok_chars)
    qed
    with takeWhile_isdig_chars [of q] have "list_all num_char q"
      by (rule list_all_take_drop_While)
    with True Cons show ?thesis by (simp add: num_char_def)
  next
    case False
    with assms Cons have "exponent_ok r" by (simp add: fraction_ok_def)
    then show ?thesis by (rule exponent_ok_chars)
  qed
qed

lemma is_number_literal_chars:
  assumes "is_number_literal s"
  shows "s \<noteq> [] \<and> list_all num_char s"
proof -
  define u where "u = (case s of [] \<Rightarrow> s | c # r \<Rightarrow> if c = CHR ''-'' then r else s)"
  from assms have t: "takeWhile isdig u \<noteq> []" and f: "fraction_ok (dropWhile isdig u)"
    by (simp_all add: is_number_literal_def u_def Let_def)
  from f have "list_all num_char (dropWhile isdig u)" by (rule fraction_ok_chars)
  with takeWhile_isdig_chars [of u] have u: "list_all num_char u"
    by (rule list_all_take_drop_While)
  from t have "u \<noteq> []" by auto
  then have "s \<noteq> []" by (auto simp: u_def)
  moreover have "list_all num_char s"
    using u by (cases s) (auto simp: u_def num_char_def split: if_splits)
  ultimately show ?thesis by simp
qed

lemma strip_plain:
  assumes "s \<noteq> []" "list_all (\<lambda>c. \<not> isspace c) s"
  shows "strip s = s" and "strip (CHR '' '' # s) = s"
proof -
  have h: "\<not> isspace (hd s)" and l: "\<not> isspace (last s)"
    using assms by (simp_all add: list_all_iff)
  have d: "dropWhile isspace s = s"
    using h by (simp add: dropWhile_eq_self_iff)
  have r: "dropWhile isspace (rev s) = rev s"
    using l by (simp add: dropWhile_eq_self_iff hd_rev)
  show "strip s = s" by (simp add: strip_def d r)
  have "isspace (CHR '' '')" by (simp add: isspace_def)
  then show "strip (CHR '' '' # s) = s" by (simp add: strip_def d r)
qed

lemma strip_empty: "strip s = [] \<Longrightarrow> list_all isspace s"
proof -
  assume "strip s = []"
  then have a: "\<forall>c \<in> set (dropWhile isspace s). isspace c"
    by (simp add: strip_def)
  have "dropWhile isspace s = []"
  proof (rule ccontr)
    assume n: "dropWhile isspace s \<noteq> []"
    then have "\<not> isspace (hd (dropWhile isspace s))" by (rule hd_dropWhile)
    with a n show False by (meson hd_in_set)
  qed
  then show ?thesis by (simp add: list_all_iff)
qed

lemma split_from_comma:
  "CHR '','' \<notin> set a \<Longrightarrow>
   split_from '','' acc (a @ CHR '','' # rest) = (rev acc @ a) # split_from '','' [] rest"
  by (induction a arbitrary: acc) auto

lemma split_from_no_comma:
  "CHR '','' \<notin> set a \<Longrightarrow> split_from '','' acc a = [rev acc @ a]"
  by (induction a arbitrary: acc) auto

lemma split_from_join:
  assumes "\<forall>q \<in> set (p # ps). CHR '','' \<notin> set q"
  shows "split_from '','' acc (join '', '' (p # ps)) = (rev acc @ p) # map ((#) CHR '' '') ps"
  using assms
proof (induction ps arbitrary: p acc)
  case Nil
  then show ?case by (simp add: split_from_no_comma)
next
  case (Cons q qs)
  have "join '', '' (p # q # qs) = p @ CHR '','' # CHR '' '' # join '', '' (q # qs)"
    by simp
  moreover have "split_from '','' [] (CHR '' '' # join '', '' (q # qs))
      = split_from '','' [CHR '' ''] (join '', '' (q # qs))"
    by simp
  moreover have "split_from '','' [CHR '' ''] (join '', '' (q # qs))
      = (CHR '' '' # q) # map ((#) CHR '' '') qs"
    using Cons.IH [of q "[CHR '' '']"] Cons.prems by simp
  ultimately show ?case
    using Cons.prems by (simp add: split_from_comma del: join.simps split_from.simps)
qed

lemma those_map_Some: "those (map Some xs) = Some xs"
  by (induction xs) simp_all

lemma strip_ends:
  assumes "s \<noteq> []" "\<not> isspace (hd s)" "\<not> isspace (last s)"
  shows "strip s = s"
proof -
  have d: "dropWhile isspace s = s"
    using assms(2) by (simp add: dropWhile_eq_self_iff)
  have r: "dropWhile isspace (rev s) = rev s"
    using assms(3) by (simp add: dropWhile_eq_self_iff hd_rev)
  show ?thesis by (simp add: strip_def d r)
qed

lemma join_starts: "\<exists>rest. join sep (p # ps) = p @ rest"
  by (cases ps) simp_all

lemma finite_float_repr:
  assumes "finite_float x"
  shows "float_repr x \<noteq> []" "list_all num_char (float_repr x)"
    "literal_number (float_repr x) = Some x"
proof -
  from assms obtain s where x: "x = Finite s" and s: "is_number_literal s"
    by (cases x) (simp_all add: finite_float_def)
  from is_number_literal_chars [OF s] x
  show "float_repr x \<noteq> []" "list_all num_char (float_repr x)" by simp_all
  from x s show "literal_number (float_repr x) = Some x"
    by (simp add: literal_number_def)
qed

lemma finite_float_piece:
  assumes "finite_float x"
  shows "CHR '','' \<notin> set (float_repr x)"
    "literal_number (strip (float_repr x)) = Some x"
    "literal_number (strip (CHR '' '' # float_repr x)) = Some x"
proof -
  note f = finite_float_repr [OF assms]
  have p: "list_all (\<lambda>c. \<not> isspace c) (float_repr x)"
    using f(2) num_char_plain by (auto simp: list_all_iff)
  show "CHR '','' \<notin> set (float_repr x)"
    using f(2) num_char_plain by (auto simp: list_all_iff)
  show "literal_number (strip (float_repr x)) = Some x"
    by (simp add: strip_plain(1) [OF f(1) p] f(3))
  show "literal_number (strip (CHR '' '' # float_repr x)) = Some x"
    by (simp add: strip_plain(2) [OF f(1) p] f(3))
qed

lemma pieces_parse:
  assumes "\<forall>x \<in> set xs. finite_float x"
  shows "map (\<lambda>p. literal_number (strip p)) (map ((#) CHR '' '') (map float_repr xs)) = map Some xs"
  using assms by (induction xs) (simp_all add: finite_float_piece(3))

lemma parse_list_str_list:
  assumes "\<forall>x \<in> set emb. finite_float x"
  shows "parse_list literal_number (str_list emb) = Some emb"
proof -
  let ?body = "join '', '' (map float_repr emb)"
  have s: "str_list emb = CHR ''['' # (?body @ '']'')"
    by (simp add: str_list_def)
  have "strip (str_list emb) = str_list emb"
    by (rule strip_ends) (simp_all add: s isspace_def)
  then have st: "strip (str_list emb) = CHR ''['' # (?body @ '']'')"
    by (simp add: s)
  have b: "(if strip ?body = [] then Some []
            else those (map (\<lambda>p. literal_number (strip p)) (py_split '','' ?body))) = Some emb"
  proof (cases emb)
    case Nil
    then show ?thesis by (simp add: strip_def)
  next
    case (Cons x xs)
    have fx: "finite_float x" and fxs: "\<forall>y \<in> set xs. finite_float y"
      using assms Cons by simp_all
    obtain rest where r: "?body = float_repr x @ rest"
      using join_starts [of "'', ''" "float_repr x" "map float_repr xs"] Cons by auto
    have "hd (float_repr x) \<in> set ?body"
      using finite_float_repr(1) [OF fx] r by simp
    moreover have "\<not> isspace (hd (float_repr x))"
      using finite_float_repr(1,2) [OF fx] num_char_plain
      by (metis hd_in_set list_all_iff)
    ultimately have "\<not> list_all isspace ?body"
      by (auto simp: list_all_iff)
    then have ne: "strip ?body \<noteq> []"
      using strip_empty by blast
    have "\<forall>q \<in> set (float_repr x # map float_repr xs). CHR '','' \<notin> set q"
      using fx fxs by (auto simp: finite_float_piece(1))
    from split_from_join [OF this, of "[]"]
    have sp: "py_split '','' ?body = float_repr x # map ((#) CHR '' '') (map float_repr xs)"
      using Cons by (simp add: py_split_def)
    have "map (\<lambda>p. literal_number (strip p)) (py_split '','' ?body)
        = map (\<lambda>p. literal_number (strip p))
            (float_repr x # map ((#) CHR '' '') (map float_repr xs))"
      by (simp only: sp)
    also have "\<dots> = Some x # map Some xs"
      by (simp only: list.map finite_float_piece(2) [OF fx] pieces_parse [OF fxs])
    also have "\<dots> = map Some emb"
      using Cons by simp
    finally have "map (\<lambda>p. literal_number (strip p)) (py_split '','' ?body) = map Some emb" .
    then show ?thesis
      using ne by (simp add: those_map_Some del: join.simps)
  qed
  show ?thesis
    unfolding parse_list_def st
    using b by (simp add: Let_def del: join.simps)
qed

lemma read_cell_str_list: "read_cell (str_list emb) = VStr (str_list emb)"
  by (simp add: read_cell_def str_list_def na_values_def)

text \<open>
  C5, amended. For every embedding vector whose components are all finite, the text
  that the embedder writes for it is read back by the loader, through
  \<^verbatim>\<open>ensure_embedding_list\<close>, as the same sequence of numbers.
\<close>

theorem finite_embedding_round_trip:
  "literal_eval L = parse_list literal_number \<and> py_list L = Some \<and>
   (\<forall>x \<in> set emb. finite_float x) \<longrightarrow>
     ensure_embedding_list L (read_cell (str_list emb)) = Some emb"
proof (intro impI, elim conjE)
  assume l: "literal_eval L = parse_list literal_number" and p: "py_list L = Some"
    and f: "\<forall>x \<in> set emb. finite_float x"
  have "str_list emb \<noteq> []" by (simp add: str_list_def)
  then show "ensure_embedding_list L (read_cell (str_list emb)) = Some emb"
    by (simp add: read_cell_str_list ensure_embedding_list_def l p parse_list_str_list [OF f])
qed

text \<open>
  C5, as the claim states it, fails: a vector with a NaN or an infinite component is
  written as \<^verbatim>\<open>[nan, inf, 0.0]\<close>, which neither parser reads, so the loader finds no
  embedding in the row.
\<close>

theorem nonfinite_embedding_is_lost:
  "str_list [NotANumber, Infinity False, Finite ''0.0''] = ''[nan, inf, 0.0]'' \<and>
   read_cell ''[nan, inf, 0.0]'' = VStr ''[nan, inf, 0.0]'' \<and>
   literal_eval doc_lib ''[nan, inf, 0.0]'' = None \<and>
   json_loads doc_lib ''[nan, inf, 0.0]'' = None \<and>
   ensure_embedding_list doc_lib (read_cell (str_list [NotANumber, Infinity False, Finite ''0.0'']))
     = None"
  by code_simp

theorem finite_embedding_round_trip_witness:
  "literal_eval doc_lib = parse_list literal_number \<and> py_list doc_lib = Some \<and>
   finite_float (Finite ''0.1'') \<and> finite_float (Finite ''-1.5e-07'') \<and>
   str_list [Finite ''0.1'', Finite ''-1.5e-07''] = ''[0.1, -1.5e-07]'' \<and>
   ensure_embedding_list doc_lib (read_cell (str_list [Finite ''0.1'', Finite ''-1.5e-07'']))
     = Some [Finite ''0.1'', Finite ''-1.5e-07'']"
proof -
  have h: "literal_eval doc_lib = parse_list literal_number \<and> py_list doc_lib = Some"
    by (simp add: doc_lib_def)
  have f: "finite_float (Finite ''0.1'') \<and> finite_float (Finite ''-1.5e-07'') \<and>
      str_list [Finite ''0.1'', Finite ''-1.5e-07''] = ''[0.1, -1.5e-07]''"
    by code_simp
  then have a: "\<forall>x \<in> set [Finite ''0.1'', Finite ''-1.5e-07'']. finite_float x"
    by simp
  from finite_embedding_round_trip [of doc_lib "[Finite ''0.1'', Finite ''-1.5e-07'']"] h a
  have "ensure_embedding_list doc_lib (read_cell (str_list [Finite ''0.1'', Finite ''-1.5e-07'']))
     = Some [Finite ''0.1'', Finite ''-1.5e-07'']"
    by blast
  with h f show ?thesis by blast
qed

end
